theory Spec2Isabelle
  imports Complex_Main "HOL-Library.Word" "HOL-Library.Sublist"
begin

section \<open>The hardware-characteristics codec of \<open>instance/instance.go\<close>\<close>

text \<open>
  Go strings are byte sequences, and so is \<^typ>\<open>string\<close>: one \<^typ>\<open>char\<close> per byte.
  \<open>uint64\<close> is \<^typ>\<open>64 word\<close>. A Go pointer field that may be \<open>nil\<close> is an
  \<^typ>\<open>'a option\<close>. The struct is compared by value.
\<close>

subsection \<open>Library functions the codec calls\<close>

text \<open>
  \<open>float64\<close> values as far as \<open>parseSize\<close> looks at them: a finite value is given by the
  rational it denotes (the two zeros are not told apart: the code only compares with
  \<open>0\<close>, scales by a power of two, rounds up and converts).
\<close>

datatype float64 = Fin64 rat | PInf | NInf | NaN

text \<open>
  What lies outside the repository and has no fixed meaning in the code is a parameter:
  the allow-list of \<open>arch.IsSupportedArch\<close>, \<open>strconv.ParseFloat\<close> (\<open>None\<close> when it
  returns an error) and the result of converting to \<open>uint64\<close> a \<open>float64\<close> that
  \<open>uint64\<close> cannot represent, which Go leaves to the implementation.
\<close>

record extern =
  IsSupportedArch :: "string \<Rightarrow> bool"
  ParseFloat :: "string \<Rightarrow> float64 option"
  ConvUnrepresentable :: "float64 \<Rightarrow> 64 word"

text \<open>\<open>val < 0\<close> on a \<open>float64\<close>: false for a NaN.\<close>

fun f64_lt0 :: "float64 \<Rightarrow> bool" where
  "f64_lt0 (Fin64 q) = (q < 0)"
| "f64_lt0 NInf = True"
| "f64_lt0 PInf = False"
| "f64_lt0 NaN = False"

text \<open>
  \<open>val *= mult\<close> for a multiplier that is a positive power of two: the product of a
  \<open>float64\<close> with it is exact unless it leaves the range of the finite values.
\<close>

fun f64_scale :: "float64 \<Rightarrow> rat \<Rightarrow> float64" where
  "f64_scale (Fin64 q) m =
     (if \<bar>q * m\<bar> < 2 ^ 1024 then Fin64 (q * m) else if q < 0 then NInf else PInf)"
| "f64_scale PInf m = PInf"
| "f64_scale NInf m = NInf"
| "f64_scale NaN m = NaN"

text \<open>\<open>math.Ceil\<close>: the infinities and NaN are returned as they are.\<close>

fun Ceil :: "float64 \<Rightarrow> float64" where
  "Ceil (Fin64 q) = Fin64 (of_int \<lceil>q\<rceil>)"
| "Ceil PInf = PInf"
| "Ceil NInf = NInf"
| "Ceil NaN = NaN"

text \<open>
  The conversion \<open>uint64(f)\<close>: the fraction is discarded; a value that \<open>uint64\<close> cannot
  hold gives what the implementation gives.
\<close>

definition trunc0 :: "rat \<Rightarrow> int" where
  "trunc0 q = (if 0 \<le> q then \<lfloor>q\<rfloor> else \<lceil>q\<rceil>)"

fun uint64_of_float :: "extern \<Rightarrow> float64 \<Rightarrow> 64 word" where
  "uint64_of_float L (Fin64 q) =
     (if 0 \<le> trunc0 q \<and> trunc0 q < 2 ^ 64 then word_of_int (trunc0 q)
      else ConvUnrepresentable L (Fin64 q))"
| "uint64_of_float L f = ConvUnrepresentable L f"

text \<open>
  \<open>strings.TrimSpace\<close> removes the leading and the trailing runes that
  \<open>unicode.IsSpace\<close> accepts. These are their UTF-8 encodings: the six ASCII ones,
  U+0085, U+00A0, U+1680, U+2000 to U+200A, U+2028, U+2029, U+202F, U+205F and U+3000.
  A byte that starts no valid encoding is a rune of its own and no space.
\<close>

definition space_runes :: "string list" where
  "space_runes =
    [[CHR 0x09], [CHR 0x0A], [CHR 0x0B], [CHR 0x0C], [CHR 0x0D], [CHR 0x20],
     [CHR 0xC2, CHR 0x85], [CHR 0xC2, CHR 0xA0],
     [CHR 0xE1, CHR 0x9A, CHR 0x80],
     [CHR 0xE2, CHR 0x80, CHR 0x80], [CHR 0xE2, CHR 0x80, CHR 0x81],
     [CHR 0xE2, CHR 0x80, CHR 0x82], [CHR 0xE2, CHR 0x80, CHR 0x83],
     [CHR 0xE2, CHR 0x80, CHR 0x84], [CHR 0xE2, CHR 0x80, CHR 0x85],
     [CHR 0xE2, CHR 0x80, CHR 0x86], [CHR 0xE2, CHR 0x80, CHR 0x87],
     [CHR 0xE2, CHR 0x80, CHR 0x88], [CHR 0xE2, CHR 0x80, CHR 0x89],
     [CHR 0xE2, CHR 0x80, CHR 0x8A],
     [CHR 0xE2, CHR 0x80, CHR 0xA8], [CHR 0xE2, CHR 0x80, CHR 0xA9],
     [CHR 0xE2, CHR 0x80, CHR 0xAF],
     [CHR 0xE2, CHR 0x81, CHR 0x9F],
     [CHR 0xE3, CHR 0x80, CHR 0x80]]"

text \<open>The encoding of the space rune a string starts with, and the one it ends with.\<close>

definition leading_space :: "string \<Rightarrow> string option" where
  "leading_space s = find (\<lambda>w. prefix w s) space_runes"

definition trailing_space :: "string \<Rightarrow> string option" where
  "trailing_space s = find (\<lambda>w. suffix w s) space_runes"

function TrimLeft :: "string \<Rightarrow> string" where
  "TrimLeft s =
     (case leading_space s of None \<Rightarrow> s | Some w \<Rightarrow> TrimLeft (drop (length w) s))"
  by pat_completeness auto

function TrimRight :: "string \<Rightarrow> string" where
  "TrimRight s =
     (case trailing_space s of None \<Rightarrow> s
      | Some w \<Rightarrow> TrimRight (take (length s - length w) s))"
  by pat_completeness auto

termination TrimLeft
proof (relation "measure length", simp)
  fix s w assume "leading_space s = Some w"
  then have "w \<in> set space_runes" "prefix w s"
    by (auto simp: leading_space_def find_Some_iff)
  then have "w \<noteq> []" "s \<noteq> []" by (auto simp: space_runes_def)
  then show "(drop (length w) s, s) \<in> measure length" by simp
qed

termination TrimRight
proof (relation "measure length", simp)
  fix s w assume "trailing_space s = Some w"
  then have "w \<in> set space_runes" "suffix w s"
    by (auto simp: trailing_space_def find_Some_iff)
  then have "w \<noteq> []" "s \<noteq> []" by (auto simp: space_runes_def)
  then show "(take (length s - length w) s, s) \<in> measure length" by simp
qed

declare TrimLeft.simps [simp del] TrimRight.simps [simp del]

definition TrimSpace :: "string \<Rightarrow> string" where
  "TrimSpace s = TrimRight (TrimLeft s)"

text \<open>\<open>strings.Split(s, sep)\<close> for a separator of one byte: always at least one piece.\<close>

fun Split :: "string \<Rightarrow> char \<Rightarrow> string list" where
  "Split [] sep = [[]]"
| "Split (c # cs) sep =
     (if c = sep then [] # Split cs sep
      else (case Split cs sep of [] \<Rightarrow> [[c]] | x # xs \<Rightarrow> (c # x) # xs))"

text \<open>\<open>strings.Join(elems, sep)\<close>.\<close>

fun Join :: "string list \<Rightarrow> string \<Rightarrow> string" where
  "Join [] sep = []"
| "Join [x] sep = x"
| "Join (x # y # ys) sep = x @ sep @ Join (y # ys) sep"

text \<open>\<open>strings.Index(s, sep)\<close> for a separator of one byte: \<open>-1\<close> when it is absent.\<close>

fun Index :: "string \<Rightarrow> char \<Rightarrow> int" where
  "Index [] c = - 1"
| "Index (x # xs) c =
     (if x = c then 0 else (let i = Index xs c in if i < 0 then - 1 else i + 1))"

text \<open>
  \<open>strconv.ParseUint(s, 10, 64)\<close>: an empty string, a byte that is no decimal digit
  (a sign too) and a value of \<open>2 ^ 64\<close> or more are errors.
\<close>

definition digit_of :: "char \<Rightarrow> nat option" where
  "digit_of c =
     (if of_char c \<ge> (48::nat) \<and> of_char c \<le> (57::nat) then Some (of_char c - 48) else None)"

fun ParseUint_loop :: "nat \<Rightarrow> string \<Rightarrow> nat option" where
  "ParseUint_loop n [] = Some n"
| "ParseUint_loop n (c # cs) =
     (case digit_of c of None \<Rightarrow> None
      | Some d \<Rightarrow> if 10 * n + d < 2 ^ 64 then ParseUint_loop (10 * n + d) cs else None)"

definition ParseUint :: "string \<Rightarrow> 64 word option" where
  "ParseUint s = (if s = [] then None else map_option word_of_nat (ParseUint_loop 0 s))"

text \<open>The verb \<open>%d\<close> of \<open>fmt.Sprintf\<close> on a \<open>uint64\<close>.\<close>

definition digit_char :: "nat \<Rightarrow> char" where
  "digit_char d = char_of (48 + d)"

fun decimal :: "nat \<Rightarrow> string" where
  "decimal n = (if n < 10 then [digit_char n] else decimal (n div 10) @ [digit_char (n mod 10)])"

declare decimal.simps [simp del]

definition FormatUint :: "64 word \<Rightarrow> string" where
  "FormatUint w = decimal (unat w)"

subsection \<open>The record and its errors\<close>

record HardwareCharacteristics =
  Arch :: "string option"
  Mem :: "64 word option"
  RootDisk :: "64 word option"
  CpuCores :: "64 word option"
  CpuPower :: "64 word option"
  Tags :: "string list option"
  AvailabilityZone :: "string option"

text \<open>\<open>HardwareCharacteristics{}\<close>: every pointer \<open>nil\<close>.\<close>

definition zero_hc :: HardwareCharacteristics where
  "zero_hc = \<lparr>Arch = None, Mem = None, RootDisk = None, CpuCores = None, CpuPower = None,
     Tags = None, AvailabilityZone = None\<rparr>"

text \<open>
  The errors are \<open>fmt.Errorf\<close> messages; each message is a constructor, with the text
  it quotes. \<open>AlreadySet\<close> is "already set", \<open>NotRecognized\<close> is "... not recognized",
  \<open>NotUint\<close> is "must be a non-negative integer", \<open>NotSize\<close> is "must be a non-negative
  float with optional M/G/T/P suffix". \<open>Malformed\<close> is "malformed characteristic ...",
  \<open>Unknown\<close> is "unknown characteristic ..." and \<open>Bad name e\<close> is
  "bad name characteristic: e".
\<close>

datatype setter_error = AlreadySet | NotRecognized string | NotUint | NotSize

datatype error = Malformed string | Unknown string | Bad string setter_error

subsection \<open>Value parsers\<close>

definition parseTags :: "string \<Rightarrow> string list" where
  "parseTags s = (if s = [] then [] else Split s CHR '','')"

definition parseUint64 :: "string \<Rightarrow> setter_error + 64 word" where
  "parseUint64 str =
     (if str \<noteq> [] then
        (case ParseUint str of None \<Rightarrow> Inl NotUint | Some val \<Rightarrow> Inr val)
      else Inr 0)"

definition mbSuffixes :: "string \<Rightarrow> rat option" where
  "mbSuffixes = map_of
     [(''M'', 1), (''G'', 1024), (''T'', 1024 * 1024), (''P'', 1024 * 1024 * 1024)]"

definition parseSize :: "extern \<Rightarrow> string \<Rightarrow> setter_error + 64 word" where
  "parseSize L str =
     (if str \<noteq> [] then
        (let (str', mult) =
               (case mbSuffixes (drop (length str - 1) str) of
                  Some m \<Rightarrow> (take (length str - 1) str, m)
                | None \<Rightarrow> (str, 1))
         in case ParseFloat L str' of
              None \<Rightarrow> Inl NotSize
            | Some val \<Rightarrow>
                if f64_lt0 val then Inl NotSize
                else Inr (uint64_of_float L (Ceil (f64_scale val mult))))
      else Inr 0)"

subsection \<open>Setters\<close>

definition setArch ::
  "extern \<Rightarrow> HardwareCharacteristics \<Rightarrow> string \<Rightarrow> setter_error + HardwareCharacteristics" where
  "setArch L hc str =
     (if Arch hc \<noteq> None then Inl AlreadySet
      else if str \<noteq> [] \<and> \<not> IsSupportedArch L str then Inl (NotRecognized str)
      else Inr (hc\<lparr>Arch := Some str\<rparr>))"

definition setCpuCores ::
  "HardwareCharacteristics \<Rightarrow> string \<Rightarrow> setter_error + HardwareCharacteristics" where
  "setCpuCores hc str =
     (if CpuCores hc \<noteq> None then Inl AlreadySet
      else (case parseUint64 str of Inl e \<Rightarrow> Inl e | Inr v \<Rightarrow> Inr (hc\<lparr>CpuCores := Some v\<rparr>)))"

definition setCpuPower ::
  "HardwareCharacteristics \<Rightarrow> string \<Rightarrow> setter_error + HardwareCharacteristics" where
  "setCpuPower hc str =
     (if CpuPower hc \<noteq> None then Inl AlreadySet
      else (case parseUint64 str of Inl e \<Rightarrow> Inl e | Inr v \<Rightarrow> Inr (hc\<lparr>CpuPower := Some v\<rparr>)))"

definition setMem ::
  "extern \<Rightarrow> HardwareCharacteristics \<Rightarrow> string \<Rightarrow> setter_error + HardwareCharacteristics" where
  "setMem L hc str =
     (if Mem hc \<noteq> None then Inl AlreadySet
      else (case parseSize L str of Inl e \<Rightarrow> Inl e | Inr v \<Rightarrow> Inr (hc\<lparr>Mem := Some v\<rparr>)))"

definition setRootDisk ::
  "extern \<Rightarrow> HardwareCharacteristics \<Rightarrow> string \<Rightarrow> setter_error + HardwareCharacteristics" where
  "setRootDisk L hc str =
     (if RootDisk hc \<noteq> None then Inl AlreadySet
      else (case parseSize L str of Inl e \<Rightarrow> Inl e | Inr v \<Rightarrow> Inr (hc\<lparr>RootDisk := Some v\<rparr>)))"

definition setTags ::
  "HardwareCharacteristics \<Rightarrow> string \<Rightarrow> setter_error + HardwareCharacteristics" where
  "setTags hc str =
     (if Tags hc \<noteq> None then Inl AlreadySet
      else Inr (hc\<lparr>Tags := Some (parseTags str)\<rparr>))"

definition setAvailabilityZone ::
  "HardwareCharacteristics \<Rightarrow> string \<Rightarrow> setter_error + HardwareCharacteristics" where
  "setAvailabilityZone hc str =
     (if AvailabilityZone hc \<noteq> None then Inl AlreadySet
      else if str \<noteq> [] then Inr (hc\<lparr>AvailabilityZone := Some str\<rparr>)
      else Inr hc)"

subsection \<open>Tokens and arguments\<close>

text \<open>The tail of \<open>setRaw\<close>: a setter's error is wrapped with the name.\<close>

definition bad ::
  "string \<Rightarrow> setter_error + HardwareCharacteristics \<Rightarrow> error + HardwareCharacteristics" where
  "bad name r = (case r of Inl err \<Rightarrow> Inl (Bad name err) | Inr hc \<Rightarrow> Inr hc)"

definition setRaw ::
  "extern \<Rightarrow> HardwareCharacteristics \<Rightarrow> string \<Rightarrow> error + HardwareCharacteristics" where
  "setRaw L hc raw =
     (let eq = Index raw CHR ''=''
      in if eq \<le> 0 then Inl (Malformed raw)
         else
           (let name = take (nat eq) raw; str = drop (nat eq + 1) raw
            in if name = ''arch'' then bad name (setArch L hc str)
               else if name = ''cores'' then bad name (setCpuCores hc str)
               else if name = ''cpu-power'' then bad name (setCpuPower hc str)
               else if name = ''mem'' then bad name (setMem L hc str)
               else if name = ''root-disk'' then bad name (setRootDisk L hc str)
               else if name = ''tags'' then bad name (setTags hc str)
               else if name = ''availability-zone'' then bad name (setAvailabilityZone hc str)
               else Inl (Unknown name)))"

text \<open>The inner loop of \<open>ParseHardware\<close>, over the pieces of one argument.\<close>

fun setRaws ::
  "extern \<Rightarrow> HardwareCharacteristics \<Rightarrow> string list \<Rightarrow> error + HardwareCharacteristics" where
  "setRaws L hc [] = Inr hc"
| "setRaws L hc (raw # raws) =
     (if raw = [] then setRaws L hc raws
      else (case setRaw L hc raw of
              Inl err \<Rightarrow> Inl err
            | Inr hc' \<Rightarrow> setRaws L hc' raws))"

text \<open>The outer loop, over the arguments.\<close>

fun parseArgs ::
  "extern \<Rightarrow> HardwareCharacteristics \<Rightarrow> string list \<Rightarrow> error + HardwareCharacteristics" where
  "parseArgs L hc [] = Inr hc"
| "parseArgs L hc (arg # args) =
     (case setRaws L hc (Split (TrimSpace arg) CHR '' '') of
        Inl err \<Rightarrow> Inl err
      | Inr hc' \<Rightarrow> parseArgs L hc' args)"

text \<open>
  \<open>ParseHardware\<close> returns a record and an error, \<open>None\<close> for \<open>nil\<close>; with an error
  the record is \<open>HardwareCharacteristics{}\<close>.
\<close>

definition ParseHardware ::
  "extern \<Rightarrow> string list \<Rightarrow> HardwareCharacteristics \<times> error option" where
  "ParseHardware L args =
     (case parseArgs L zero_hc args of
        Inl err \<Rightarrow> (zero_hc, Some err)
      | Inr hc \<Rightarrow> (hc, None))"

subsection \<open>Rendering\<close>

text \<open>The method \<open>String\<close> of \<open>HardwareCharacteristics\<close>: \<open>strs\<close> grows field by field.\<close>

definition HardwareCharacteristics_String :: "HardwareCharacteristics \<Rightarrow> string" where
  "HardwareCharacteristics_String hc =
     (let strs0 = [];
          strs1 = (case Arch hc of None \<Rightarrow> strs0 | Some a \<Rightarrow> strs0 @ [''arch='' @ a]);
          strs2 = (case CpuCores hc of None \<Rightarrow> strs1
                   | Some n \<Rightarrow> strs1 @ [''cores='' @ FormatUint n]);
          strs3 = (case CpuPower hc of None \<Rightarrow> strs2
                   | Some n \<Rightarrow> strs2 @ [''cpu-power='' @ FormatUint n]);
          strs4 = (case Mem hc of None \<Rightarrow> strs3
                   | Some n \<Rightarrow> strs3 @ [''mem='' @ FormatUint n @ ''M'']);
          strs5 = (case RootDisk hc of None \<Rightarrow> strs4
                   | Some n \<Rightarrow> strs4 @ [''root-disk='' @ FormatUint n @ ''M'']);
          strs6 = (case Tags hc of None \<Rightarrow> strs5
                   | Some ts \<Rightarrow> if length ts > 0 then strs5 @ [''tags='' @ Join ts '',''] else strs5);
          strs7 = (case AvailabilityZone hc of None \<Rightarrow> strs6
                   | Some z \<Rightarrow> if z \<noteq> [] then strs6 @ [''availability-zone='' @ z] else strs6)
      in Join strs7 '' '')"

subsection \<open>Notions the statements use\<close>

text \<open>
  The pieces that the two loops of \<open>ParseHardware\<close> hand to \<open>setRaw\<close>, in order (the
  empty ones are skipped by the inner loop).
\<close>

definition raws_of :: "string list \<Rightarrow> string list" where
  "raws_of args = concat (map (\<lambda>arg. Split (TrimSpace arg) CHR '' '') args)"

text \<open>The names that \<open>setRaw\<close> dispatches on.\<close>

definition keys :: "string list" where
  "keys = [''arch'', ''cores'', ''cpu-power'', ''mem'', ''root-disk'', ''tags'',
     ''availability-zone'']"

text \<open>The field of a name is assigned: its pointer is not \<open>nil\<close>.\<close>

definition assigned :: "string \<Rightarrow> HardwareCharacteristics \<Rightarrow> bool" where
  "assigned k hc =
     (if k = ''arch'' then Arch hc \<noteq> None
      else if k = ''cores'' then CpuCores hc \<noteq> None
      else if k = ''cpu-power'' then CpuPower hc \<noteq> None
      else if k = ''mem'' then Mem hc \<noteq> None
      else if k = ''root-disk'' then RootDisk hc \<noteq> None
      else if k = ''tags'' then Tags hc \<noteq> None
      else if k = ''availability-zone'' then AvailabilityZone hc \<noteq> None
      else False)"

text \<open>
  A decimal numeral, and the number it writes.
\<close>

definition digits :: "string \<Rightarrow> bool" where
  "digits s = (s \<noteq> [] \<and> (\<forall>c\<in>set s. c \<in> set ''0123456789''))"

definition dec_value :: "string \<Rightarrow> nat" where
  "dec_value s = foldl (\<lambda>n c. 10 * n + (of_char c - 48)) 0 s"

text \<open>
  The pieces of the rendering as the specification lists them: one for each field that
  is set, in a fixed order.
\<close>

definition rendered :: "HardwareCharacteristics \<Rightarrow> string list" where
  "rendered hc =
     (case Arch hc of None \<Rightarrow> [] | Some a \<Rightarrow> [''arch='' @ a])
     @ (case CpuCores hc of None \<Rightarrow> [] | Some n \<Rightarrow> [''cores='' @ decimal (unat n)])
     @ (case CpuPower hc of None \<Rightarrow> [] | Some n \<Rightarrow> [''cpu-power='' @ decimal (unat n)])
     @ (case Mem hc of None \<Rightarrow> [] | Some n \<Rightarrow> [''mem='' @ decimal (unat n) @ ''M''])
     @ (case RootDisk hc of None \<Rightarrow> [] | Some n \<Rightarrow> [''root-disk='' @ decimal (unat n) @ ''M''])
     @ (case Tags hc of None \<Rightarrow> [] | Some ts \<Rightarrow> if ts = [] then [] else [''tags='' @ Join ts '',''])
     @ (case AvailabilityZone hc of None \<Rightarrow> []
        | Some z \<Rightarrow> if z = [] then [] else [''availability-zone='' @ z])"

text \<open>
  The unit suffix as the specification gives it: a last character \<open>M\<close>, \<open>G\<close>, \<open>T\<close>
  or \<open>P\<close> is cut off and gives the multiplier, a power of 1024 over megabytes.
\<close>

definition size_multiplier :: "char \<Rightarrow> rat option" where
  "size_multiplier c =
     (if c = CHR ''M'' then Some 1
      else if c = CHR ''G'' then Some 1024
      else if c = CHR ''T'' then Some (1024 ^ 2)
      else if c = CHR ''P'' then Some (1024 ^ 3)
      else None)"

definition split_size :: "string \<Rightarrow> string \<times> rat" where
  "split_size str =
     (if str = [] then (str, 1)
      else (case size_multiplier (last str) of
              None \<Rightarrow> (str, 1)
            | Some m \<Rightarrow> (butlast str, m)))"

text \<open>
  What every record of a successful call satisfies: its strings contain no space, the
  architecture is empty or supported, the tags come from \<open>parseTags\<close>, and a zone
  that is set is not empty.
\<close>

definition parsed_shape :: "extern \<Rightarrow> HardwareCharacteristics \<Rightarrow> bool" where
  "parsed_shape L hc =
     ((\<forall>a. Arch hc = Some a \<longrightarrow> CHR '' '' \<notin> set a \<and> (a = [] \<or> IsSupportedArch L a))
      \<and> (\<forall>ts. Tags hc = Some ts \<longrightarrow> (\<exists>s. CHR '' '' \<notin> set s \<and> ts = parseTags s))
      \<and> (\<forall>z. AvailabilityZone hc = Some z \<longrightarrow> z \<noteq> [] \<and> CHR '' '' \<notin> set z))"

subsection \<open>An instance of the library parameters\<close>

text \<open>
  For running the model on concrete inputs. The allow-list is a sample one, with
  \<open>amd64\<close> in it. \<open>ParseFloat\<close> is cut down to a table: each entry is what
  \<open>strconv.ParseFloat\<close> returns on that literal, and any other string counts as an
  error. The conversion of a value that \<open>uint64\<close> cannot hold is fixed to \<open>0\<close>.
\<close>

definition sample_extern :: extern where
  "sample_extern =
     \<lparr>IsSupportedArch = (\<lambda>s. s \<in> set [''amd64'', ''arm64'', ''armhf'', ''i386'', ''ppc64el'', ''s390x'']),
      ParseFloat = map_of
        [(''1'', Fin64 1), (''1.5'', Fin64 (3 / 2)), (''2'', Fin64 2), (''2048'', Fin64 2048),
         (''-5'', Fin64 (- 5)), (''18446744073709551616'', Fin64 (2 ^ 64))],
      ConvUnrepresentable = (\<lambda>f. 0)\<rparr>"

section \<open>Facts about the library functions\<close>

lemma space_runes_nonempty: "w \<in> set space_runes \<Longrightarrow> w \<noteq> []"
  by (auto simp: space_runes_def)

lemma leading_space_SomeD:
  "leading_space s = Some w \<Longrightarrow> w \<in> set space_runes \<and> prefix w s"
  by (auto simp: leading_space_def find_Some_iff)

lemma trailing_space_SomeD:
  "trailing_space s = Some w \<Longrightarrow> w \<in> set space_runes \<and> suffix w s"
  by (auto simp: trailing_space_def find_Some_iff)

lemma Index_ge: "- 1 \<le> Index s c"
  by (induction s) (auto simp: Let_def)

lemma Index_absent: "c \<notin> set s \<Longrightarrow> Index s c = - 1"
  by (induction s) (auto simp: Let_def)

lemma Index_first: "c \<notin> set n \<Longrightarrow> Index (n @ c # r) c = int (length n)"
  by (induction n) (auto simp: Let_def)

lemma Index_neg_iff: "Index s c < 0 \<longleftrightarrow> c \<notin> set s"
  by (induction s) (auto simp: Let_def)

lemma Index_decomp:
  "0 \<le> Index s c \<Longrightarrow> \<exists>n r. s = n @ c # r \<and> c \<notin> set n \<and> Index s c = int (length n)"
proof -
  assume "0 \<le> Index s c"
  then have "c \<in> set s" using Index_neg_iff [of s c] by auto
  then obtain n r where "s = n @ c # r" "c \<notin> set n" by (meson split_list_first)
  then show ?thesis using Index_first by blast
qed

lemma Split_nonempty: "Split s sep \<noteq> []"
  by (induction s) (auto split: list.splits)

lemma Split_no_sep: "sep \<notin> set s \<Longrightarrow> Split s sep = [s]"
  by (induction s) auto

lemma Split_append_sep:
  "sep \<notin> set t \<Longrightarrow> Split (t @ sep # s) sep = t # Split s sep"
  by (induction t) auto

lemma Split_Join:
  "ts \<noteq> [] \<Longrightarrow> \<forall>t\<in>set ts. sep \<notin> set t \<Longrightarrow> Split (Join ts [sep]) sep = ts"
proof (induction ts "[sep]" rule: Join.induct)
  case 1 then show ?case by simp
next
  case (2 x) then show ?case by (simp add: Split_no_sep)
next
  case (3 x y ys) then show ?case by (simp add: Split_append_sep)
qed

lemma Join_Split: "Join (Split s sep) [sep] = s"
proof (induction s)
  case Nil then show ?case by simp
next
  case (Cons c cs)
  then show ?case
    by (cases "Split cs sep"; cases "tl (Split cs sep)") (auto simp: Split_nonempty)
qed

lemma Split_pieces: "t \<in> set (Split s sep) \<Longrightarrow> sep \<notin> set t \<and> set t \<subseteq> set s"
proof (induction s arbitrary: t)
  case Nil then show ?case by simp
next
  case (Cons c cs)
  then show ?case
    by (cases "Split cs sep") (fastforce simp: Split_nonempty split: if_splits)+
qed

lemma leading_space_None_iff:
  "leading_space s = None \<longleftrightarrow> (\<forall>w\<in>set space_runes. \<not> prefix w s)"
  by (auto simp: leading_space_def find_None_iff)





lemma TrimLeft_id: "leading_space s = None \<Longrightarrow> TrimLeft s = s"
  by (simp add: TrimLeft.simps)

lemma TrimRight_id: "trailing_space s = None \<Longrightarrow> TrimRight s = s"
  by (simp add: TrimRight.simps)

lemma length_TrimLeft: "length (TrimLeft s) \<le> length s"
proof (induction s rule: TrimLeft.induct)
  case (1 s)
  show ?case
  proof (cases "leading_space s")
    case None then show ?thesis by (simp add: TrimLeft.simps)
  next
    case (Some w)
    with 1 have "length (TrimLeft (drop (length w) s)) \<le> length (drop (length w) s)" by simp
    with Some show ?thesis by (simp add: TrimLeft.simps [of s])
  qed
qed

lemma length_TrimRight: "length (TrimRight s) \<le> length s"
proof (induction s rule: TrimRight.induct)
  case (1 s)
  show ?case
  proof (cases "trailing_space s")
    case None then show ?thesis by (simp add: TrimRight.simps)
  next
    case (Some w)
    with 1 have "length (TrimRight (take (length s - length w) s)) \<le> length (take (length s - length w) s)" by simp
    with Some show ?thesis by (simp add: TrimRight.simps [of s])
  qed
qed

lemma TrimLeft_shorter: "leading_space s \<noteq> None \<Longrightarrow> length (TrimLeft s) < length s"
proof -
  assume "leading_space s \<noteq> None"
  then obtain w where w: "leading_space s = Some w" by auto
  then have "w \<noteq> []" "prefix w s" using leading_space_SomeD space_runes_nonempty by blast+
  then have "length (drop (length w) s) < length s" by (cases s) auto
  moreover have "length (TrimLeft (drop (length w) s)) \<le> length (drop (length w) s)"
    by (rule length_TrimLeft)
  ultimately show ?thesis using w by (simp add: TrimLeft.simps [of s])
qed

lemma TrimRight_shorter: "trailing_space s \<noteq> None \<Longrightarrow> length (TrimRight s) < length s"
proof -
  assume "trailing_space s \<noteq> None"
  then obtain w where w: "trailing_space s = Some w" by auto
  then have "w \<noteq> []" "suffix w s" using trailing_space_SomeD space_runes_nonempty by blast+
  then have "length (take (length s - length w) s) < length s" by (cases s) auto
  moreover have "length (TrimRight (take (length s - length w) s)) \<le> length (take (length s - length w) s)"
    by (rule length_TrimRight)
  ultimately show ?thesis using w by (simp add: TrimRight.simps [of s])
qed

lemma TrimSpace_id_iff:
  "TrimSpace s = s \<longleftrightarrow> leading_space s = None \<and> trailing_space s = None"
proof
  assume eq: "TrimSpace s = s"
  have l: "leading_space s = None"
  proof (rule ccontr)
    assume "leading_space s \<noteq> None"
    then have "length (TrimLeft s) < length s" by (rule TrimLeft_shorter)
    moreover have "length (TrimRight (TrimLeft s)) \<le> length (TrimLeft s)" by (rule length_TrimRight)
    ultimately show False using eq by (simp add: TrimSpace_def)
  qed
  then have "TrimLeft s = s" by (rule TrimLeft_id)
  with eq have r: "TrimRight s = s" by (simp add: TrimSpace_def)
  have "trailing_space s = None"
  proof (rule ccontr)
    assume "trailing_space s \<noteq> None"
    then have "length (TrimRight s) < length s" by (rule TrimRight_shorter)
    with r show False by simp
  qed
  with l show "leading_space s = None \<and> trailing_space s = None" ..
next
  assume "leading_space s = None \<and> trailing_space s = None"
  then show "TrimSpace s = s" by (simp add: TrimSpace_def TrimLeft_id TrimRight_id)
qed


lemma Join_eq_Nil: "\<forall>t\<in>set ts. t \<noteq> [] \<Longrightarrow> Join ts sep = [] \<longleftrightarrow> ts = []"
  by (induction ts sep rule: Join.induct) auto


section \<open>Facts about tokens and setters\<close>

lemma setRaws_append:
  "setRaws L hc (xs @ ys) =
     (case setRaws L hc xs of Inl e \<Rightarrow> Inl e | Inr hc' \<Rightarrow> setRaws L hc' ys)"
  by (induction xs arbitrary: hc) (auto split: sum.splits)

lemma parseArgs_raws: "parseArgs L hc args = setRaws L hc (raws_of args)"
  by (induction args arbitrary: hc) (auto simp: raws_of_def setRaws_append split: sum.splits)

lemma ParseHardware_raws:
  "ParseHardware L args =
     (case setRaws L zero_hc (raws_of args) of
        Inl err \<Rightarrow> (zero_hc, Some err) | Inr hc \<Rightarrow> (hc, None))"
  by (simp add: ParseHardware_def parseArgs_raws)

lemma setRaw_split:
  assumes "CHR ''='' \<notin> set name" "name \<noteq> []"
  shows "setRaw L hc (name @ CHR ''='' # str) =
     (if name = ''arch'' then bad name (setArch L hc str)
      else if name = ''cores'' then bad name (setCpuCores hc str)
      else if name = ''cpu-power'' then bad name (setCpuPower hc str)
      else if name = ''mem'' then bad name (setMem L hc str)
      else if name = ''root-disk'' then bad name (setRootDisk L hc str)
      else if name = ''tags'' then bad name (setTags hc str)
      else if name = ''availability-zone'' then bad name (setAvailabilityZone hc str)
      else Inl (Unknown name))"
proof -
  have i: "Index (name @ CHR ''='' # str) CHR ''='' = int (length name)"
    using assms(1) by (rule Index_first)
  have pos: "\<not> int (length name) \<le> 0" using assms(2) by simp
  show ?thesis unfolding setRaw_def i Let_def using pos by simp
qed

lemma keys_no_eq: "k \<in> set keys \<Longrightarrow> CHR ''='' \<notin> set k \<and> k \<noteq> []"
  by (auto simp: keys_def)

lemma setRaw_key:
  assumes "k \<in> set keys"
  shows "setRaw L hc (k @ CHR ''='' # str) =
     (if k = ''arch'' then bad k (setArch L hc str)
      else if k = ''cores'' then bad k (setCpuCores hc str)
      else if k = ''cpu-power'' then bad k (setCpuPower hc str)
      else if k = ''mem'' then bad k (setMem L hc str)
      else if k = ''root-disk'' then bad k (setRootDisk L hc str)
      else if k = ''tags'' then bad k (setTags hc str)
      else bad k (setAvailabilityZone hc str))"
proof -
  from assms have "CHR ''='' \<notin> set k" "k \<noteq> []" using keys_no_eq by blast+
  then have "setRaw L hc (k @ CHR ''='' # str) =
     (if k = ''arch'' then bad k (setArch L hc str)
      else if k = ''cores'' then bad k (setCpuCores hc str)
      else if k = ''cpu-power'' then bad k (setCpuPower hc str)
      else if k = ''mem'' then bad k (setMem L hc str)
      else if k = ''root-disk'' then bad k (setRootDisk L hc str)
      else if k = ''tags'' then bad k (setTags hc str)
      else if k = ''availability-zone'' then bad k (setAvailabilityZone hc str)
      else Inl (Unknown k))" by (rule setRaw_split)
  moreover from assms have "k = ''arch'' \<or> k = ''cores'' \<or> k = ''cpu-power'' \<or> k = ''mem''
     \<or> k = ''root-disk'' \<or> k = ''tags'' \<or> k = ''availability-zone''" by (simp add: keys_def)
  ultimately show ?thesis by presburger
qed

lemmas setter_defs = setArch_def setCpuCores_def setCpuPower_def setMem_def setRootDisk_def
  setTags_def setAvailabilityZone_def

lemma bad_Inr: "bad k r = Inr hc' \<longleftrightarrow> r = Inr hc'"
  by (cases r) (auto simp: bad_def)

lemma bad_Inl: "bad k r = Inl e \<longleftrightarrow> (\<exists>e'. r = Inl e' \<and> e = Bad k e')"
  by (cases r) (auto simp: bad_def)

lemma setArch_Inr:
  "setArch L hc v = Inr hc' \<longleftrightarrow>
     Arch hc = None \<and> (v = [] \<or> IsSupportedArch L v) \<and> hc' = hc\<lparr>Arch := Some v\<rparr>"
  by (auto simp: setArch_def)

lemma setCpuCores_Inr:
  "setCpuCores hc v = Inr hc' \<longleftrightarrow>
     CpuCores hc = None \<and> (\<exists>w. parseUint64 v = Inr w \<and> hc' = hc\<lparr>CpuCores := Some w\<rparr>)"
  by (auto simp: setCpuCores_def split: sum.splits)

lemma setCpuPower_Inr:
  "setCpuPower hc v = Inr hc' \<longleftrightarrow>
     CpuPower hc = None \<and> (\<exists>w. parseUint64 v = Inr w \<and> hc' = hc\<lparr>CpuPower := Some w\<rparr>)"
  by (auto simp: setCpuPower_def split: sum.splits)

lemma setMem_Inr:
  "setMem L hc v = Inr hc' \<longleftrightarrow>
     Mem hc = None \<and> (\<exists>w. parseSize L v = Inr w \<and> hc' = hc\<lparr>Mem := Some w\<rparr>)"
  by (auto simp: setMem_def split: sum.splits)

lemma setRootDisk_Inr:
  "setRootDisk L hc v = Inr hc' \<longleftrightarrow>
     RootDisk hc = None \<and> (\<exists>w. parseSize L v = Inr w \<and> hc' = hc\<lparr>RootDisk := Some w\<rparr>)"
  by (auto simp: setRootDisk_def split: sum.splits)

lemma setTags_Inr:
  "setTags hc v = Inr hc' \<longleftrightarrow> Tags hc = None \<and> hc' = hc\<lparr>Tags := Some (parseTags v)\<rparr>"
  by (auto simp: setTags_def)

lemma setAvailabilityZone_Inr:
  "setAvailabilityZone hc v = Inr hc' \<longleftrightarrow>
     AvailabilityZone hc = None \<and>
     hc' = (if v \<noteq> [] then hc\<lparr>AvailabilityZone := Some v\<rparr> else hc)"
  by (auto simp: setAvailabilityZone_def)

lemmas setter_Inr = setArch_Inr setCpuCores_Inr setCpuPower_Inr setMem_Inr setRootDisk_Inr
  setTags_Inr setAvailabilityZone_Inr

lemma keys_disj:
  "k \<in> set keys \<Longrightarrow> k = ''arch'' \<or> k = ''cores'' \<or> k = ''cpu-power'' \<or> k = ''mem''
     \<or> k = ''root-disk'' \<or> k = ''tags'' \<or> k = ''availability-zone''"
  by (simp add: keys_def)

lemma keys_cases:
  assumes "k \<in> set keys"
  obtains "k = ''arch''" | "k = ''cores''" | "k = ''cpu-power''" | "k = ''mem''"
    | "k = ''root-disk''" | "k = ''tags''" | "k = ''availability-zone''"
  using keys_disj [OF assms] by (elim disjE) (rule that, assumption)+

lemma setRaw_assigned:
  assumes "k \<in> set keys" "assigned k hc"
  shows "setRaw L hc (k @ CHR ''='' # v) = Inl (Bad k AlreadySet)"
  using assms(1)
proof (cases rule: keys_cases)
  case 1 with assms(2) show ?thesis
    unfolding setRaw_key [OF assms(1)] by (simp add: assigned_def bad_def setArch_def)
next
  case 2 with assms(2) show ?thesis
    unfolding setRaw_key [OF assms(1)] by (simp add: assigned_def bad_def setCpuCores_def)
next
  case 3 with assms(2) show ?thesis
    unfolding setRaw_key [OF assms(1)] by (simp add: assigned_def bad_def setCpuPower_def)
next
  case 4 with assms(2) show ?thesis
    unfolding setRaw_key [OF assms(1)] by (simp add: assigned_def bad_def setMem_def)
next
  case 5 with assms(2) show ?thesis
    unfolding setRaw_key [OF assms(1)] by (simp add: assigned_def bad_def setRootDisk_def)
next
  case 6 with assms(2) show ?thesis
    unfolding setRaw_key [OF assms(1)] by (simp add: assigned_def bad_def setTags_def)
next
  case 7 with assms(2) show ?thesis
    unfolding setRaw_key [OF assms(1)] by (simp add: assigned_def bad_def setAvailabilityZone_def)
qed

lemma setRaw_assigns:
  assumes "k \<in> set keys" "setRaw L hc (k @ CHR ''='' # v) = Inr hc'"
    "\<not> (k = ''availability-zone'' \<and> v = [])"
  shows "assigned k hc'"
  using assms(1)
proof (cases rule: keys_cases)
  case 1 with assms(2) show ?thesis
    unfolding setRaw_key [OF assms(1)] by (auto simp: assigned_def bad_Inr setArch_Inr)
next
  case 2 with assms(2) show ?thesis
    unfolding setRaw_key [OF assms(1)] by (auto simp: assigned_def bad_Inr setCpuCores_Inr)
next
  case 3 with assms(2) show ?thesis
    unfolding setRaw_key [OF assms(1)] by (auto simp: assigned_def bad_Inr setCpuPower_Inr)
next
  case 4 with assms(2) show ?thesis
    unfolding setRaw_key [OF assms(1)] by (auto simp: assigned_def bad_Inr setMem_Inr)
next
  case 5 with assms(2) show ?thesis
    unfolding setRaw_key [OF assms(1)] by (auto simp: assigned_def bad_Inr setRootDisk_Inr)
next
  case 6 with assms(2) show ?thesis
    unfolding setRaw_key [OF assms(1)] by (auto simp: assigned_def bad_Inr setTags_Inr)
next
  case 7 with assms(2,3) show ?thesis
    unfolding setRaw_key [OF assms(1)] by (auto simp: assigned_def bad_Inr setAvailabilityZone_Inr)
qed

lemma setRaw_Inr_cases:
  assumes "setRaw L hc raw = Inr hc'"
  obtains str where "setArch L hc str = Inr hc'"
  | str where "setCpuCores hc str = Inr hc'"
  | str where "setCpuPower hc str = Inr hc'"
  | str where "setMem L hc str = Inr hc'"
  | str where "setRootDisk L hc str = Inr hc'"
  | str where "setTags hc str = Inr hc'"
  | str where "setAvailabilityZone hc str = Inr hc'"
  using assms unfolding setRaw_def Let_def
  by (simp add: bad_Inr split: if_splits)

lemma setRaw_keeps:
  assumes "setRaw L hc raw = Inr hc'"
  shows "(Arch hc \<noteq> None \<longrightarrow> Arch hc' = Arch hc) \<and>
     (CpuCores hc \<noteq> None \<longrightarrow> CpuCores hc' = CpuCores hc) \<and>
     (CpuPower hc \<noteq> None \<longrightarrow> CpuPower hc' = CpuPower hc) \<and>
     (Mem hc \<noteq> None \<longrightarrow> Mem hc' = Mem hc) \<and>
     (RootDisk hc \<noteq> None \<longrightarrow> RootDisk hc' = RootDisk hc) \<and>
     (Tags hc \<noteq> None \<longrightarrow> Tags hc' = Tags hc) \<and>
     (AvailabilityZone hc \<noteq> None \<longrightarrow> AvailabilityZone hc' = AvailabilityZone hc)"
  using assms
proof (cases rule: setRaw_Inr_cases)
  case (1 str) then show ?thesis by (auto simp: setArch_Inr)
next
  case (2 str) then show ?thesis by (auto simp: setCpuCores_Inr)
next
  case (3 str) then show ?thesis by (auto simp: setCpuPower_Inr)
next
  case (4 str) then show ?thesis by (auto simp: setMem_Inr)
next
  case (5 str) then show ?thesis by (auto simp: setRootDisk_Inr)
next
  case (6 str) then show ?thesis by (auto simp: setTags_Inr)
next
  case (7 str) then show ?thesis by (auto simp: setAvailabilityZone_Inr)
qed

lemma setRaw_keeps_assigned: "setRaw L hc raw = Inr hc' \<Longrightarrow> assigned k hc \<Longrightarrow> assigned k hc'"
  using setRaw_keeps [of L hc raw hc'] unfolding assigned_def by presburger

lemma setRaws_keeps_assigned: "setRaws L hc raws = Inr hc' \<Longrightarrow> assigned k hc \<Longrightarrow> assigned k hc'"
proof (induction raws arbitrary: hc)
  case Nil then show ?case by simp
next
  case (Cons raw raws)
  show ?case
  proof (cases "raw = []")
    case True with Cons show ?thesis by simp
  next
    case False
    with Cons.prems(1) obtain h where h: "setRaw L hc raw = Inr h" "setRaws L h raws = Inr hc'"
      by (auto split: sum.splits)
    from setRaw_keeps_assigned [OF h(1) Cons.prems(2)] Cons.IH [OF h(2)] show ?thesis by blast
  qed
qed

lemma setRaws_Cons:
  "raw \<noteq> [] \<Longrightarrow> setRaws L hc (raw # raws) =
     (case setRaw L hc raw of Inl err \<Rightarrow> Inl err | Inr hc' \<Rightarrow> setRaws L hc' raws)"
  by simp

lemma parse_stops:
  assumes "raws_of args = pre @ raw # post" "setRaws L zero_hc pre = Inr h" "raw \<noteq> []"
    "setRaw L h raw = Inl e"
  shows "ParseHardware L args = (zero_hc, Some e)"
  using assms by (simp add: ParseHardware_raws setRaws_append)

lemma parse_goes_on:
  assumes "raws_of args = pre @ raw # post" "setRaws L zero_hc pre = Inr h" "raw \<noteq> []"
    "setRaw L h raw = Inr h'"
  shows "ParseHardware L args =
     (case setRaws L h' post of Inl err \<Rightarrow> (zero_hc, Some err) | Inr hc \<Rightarrow> (hc, None))"
  using assms by (simp add: ParseHardware_raws setRaws_append)

lemma setRaws_Inl_decomp:
  "setRaws L hc raws = Inl e \<Longrightarrow>
     \<exists>pre raw post h. raws = pre @ raw # post \<and> setRaws L hc pre = Inr h \<and> raw \<noteq> []
        \<and> setRaw L h raw = Inl e"
proof (induction raws arbitrary: hc)
  case Nil then show ?case by simp
next
  case (Cons r rs)
  show ?case
  proof (cases "r = []")
    case True
    with Cons.prems have "setRaws L hc rs = Inl e" by simp
    from Cons.IH [OF this] obtain pre raw post h where
      "rs = pre @ raw # post" "setRaws L hc pre = Inr h" "raw \<noteq> []" "setRaw L h raw = Inl e"
      by blast
    with True have "r # rs = (r # pre) @ raw # post \<and> setRaws L hc (r # pre) = Inr h
       \<and> raw \<noteq> [] \<and> setRaw L h raw = Inl e" by simp
    then show ?thesis by blast
  next
    case False
    show ?thesis
    proof (cases "setRaw L hc r")
      case (Inl e')
      with False Cons.prems have "e' = e" by simp
      with Inl False have "r # rs = [] @ r # rs \<and> setRaws L hc [] = Inr hc \<and> r \<noteq> []
         \<and> setRaw L hc r = Inl e" by simp
      then show ?thesis by blast
    next
      case (Inr h1)
      with False Cons.prems have "setRaws L h1 rs = Inl e" by simp
      from Cons.IH [OF this] obtain pre raw post h where
        "rs = pre @ raw # post" "setRaws L h1 pre = Inr h" "raw \<noteq> []" "setRaw L h raw = Inl e"
        by blast
      with False Inr have "r # rs = (r # pre) @ raw # post \<and> setRaws L hc (r # pre) = Inr h
         \<and> raw \<noteq> [] \<and> setRaw L h raw = Inl e" by simp
      then show ?thesis by blast
    qed
  qed
qed

lemma setRaw_no_eq: "CHR ''='' \<notin> set raw \<Longrightarrow> setRaw L hc raw = Inl (Malformed raw)"
  by (simp add: setRaw_def Index_absent)

lemma setRaw_eq_first: "setRaw L hc (CHR ''='' # r) = Inl (Malformed (CHR ''='' # r))"
  by (simp add: setRaw_def)

lemma setRaw_unknown:
  assumes "CHR ''='' \<notin> set name" "name \<noteq> []" "name \<notin> set keys"
  shows "setRaw L hc (name @ CHR ''='' # str) = Inl (Unknown name)"
proof -
  from assms(3) have "name \<noteq> ''arch''" "name \<noteq> ''cores''" "name \<noteq> ''cpu-power''"
    "name \<noteq> ''mem''" "name \<noteq> ''root-disk''" "name \<noteq> ''tags''" "name \<noteq> ''availability-zone''"
    unfolding keys_def by fastforce+
  then show ?thesis unfolding setRaw_split [OF assms(1,2)] by simp
qed

lemma raws_of_Cons: "raws_of (a # as) = Split (TrimSpace a) CHR '' '' @ raws_of as"
  by (simp add: raws_of_def)

lemma raws_of_Nil: "raws_of [] = []"
  by (simp add: raws_of_def)

lemmas trim_eval = TrimSpace_def TrimLeft.simps TrimRight.simps leading_space_def
  trailing_space_def space_runes_def suffix_to_prefix

lemma parseSize_empty: "parseSize L [] = Inr 0"
  by (simp add: parseSize_def)

lemma setRaw_mem: "setRaw L hc (''mem='' @ v) = bad ''mem'' (setMem L hc v)"
  using setRaw_split [of "''mem''" L hc v] by simp

lemma setRaw_root_disk: "setRaw L hc (''root-disk='' @ v) = bad ''root-disk'' (setRootDisk L hc v)"
  using setRaw_split [of "''root-disk''" L hc v] by simp

lemma setRaw_cores: "setRaw L hc (''cores='' @ v) = bad ''cores'' (setCpuCores hc v)"
  using setRaw_split [of "''cores''" L hc v] by simp

lemma setRaw_cpu_power: "setRaw L hc (''cpu-power='' @ v) = bad ''cpu-power'' (setCpuPower hc v)"
  using setRaw_split [of "''cpu-power''" L hc v] by simp

lemma setRaw_arch: "setRaw L hc (''arch='' @ v) = bad ''arch'' (setArch L hc v)"
  using setRaw_split [of "''arch''" L hc v] by simp

lemma setRaw_tags: "setRaw L hc (''tags='' @ v) = bad ''tags'' (setTags hc v)"
  using setRaw_split [of "''tags''" L hc v] by simp

lemma setRaw_zone:
  "setRaw L hc (''availability-zone='' @ v) = bad ''availability-zone'' (setAvailabilityZone hc v)"
  using setRaw_split [of "''availability-zone''" L hc v] by simp

lemma cores1: "setRaw L zero_hc ''cores=1'' = Inr (zero_hc\<lparr>CpuCores := Some 1\<rparr>)"
  using setRaw_cores [of L zero_hc "''1''"]
  by (simp add: bad_def setCpuCores_def parseUint64_def ParseUint_def digit_of_def zero_hc_def)

lemma dup_key_assigned:
  assumes "k \<in> set keys" "\<not> (k = ''availability-zone'' \<and> v1 = [])"
    "setRaws L h0 (pre @ (k @ CHR ''='' # v1) # mid) = Inr h"
  shows "assigned k h"
proof -
  from keys_no_eq [OF assms(1)] have ne: "k @ CHR ''='' # v1 \<noteq> []" by simp
  from assms(3) obtain h1 where h1: "setRaws L h0 pre = Inr h1"
    and r: "setRaws L h1 ((k @ CHR ''='' # v1) # mid) = Inr h"
    by (auto simp: setRaws_append split: sum.splits)
  from r ne obtain h2 where h2: "setRaw L h1 (k @ CHR ''='' # v1) = Inr h2"
    and m: "setRaws L h2 mid = Inr h"
    by (auto simp: setRaws_Cons split: sum.splits)
  from setRaw_assigns [OF assms(1) h2 assms(2)] have "assigned k h2" .
  with m show ?thesis by (rule setRaws_keeps_assigned)
qed

lemma setRaws_prefix_fails:
  "setRaws L h0 xs = Inl e \<Longrightarrow> setRaws L h0 (xs @ ys) = Inl e"
  by (simp add: setRaws_append)

lemma mem1G:
  "ParseFloat L ''1'' = Some (Fin64 1) \<Longrightarrow> Mem hc = None \<Longrightarrow>
     setRaw L hc ''mem=1G'' = Inr (hc\<lparr>Mem := Some 1024\<rparr>)"
  using setRaw_mem [of L hc "''1G''"]
  by (simp add: bad_def setMem_def parseSize_def mbSuffixes_def trunc0_def)

lemma digit_of_Some_iff: "digit_of c \<noteq> None \<longleftrightarrow> c \<in> set ''0123456789''"
proof
  assume "digit_of c \<noteq> None"
  then have r: "48 \<le> (of_char c :: nat)" "(of_char c :: nat) \<le> 57"
    by (auto simp: digit_of_def split: if_splits)
  then have "(of_char c :: nat) = 48 \<or> (of_char c :: nat) = 49 \<or> (of_char c :: nat) = 50
     \<or> (of_char c :: nat) = 51 \<or> (of_char c :: nat) = 52 \<or> (of_char c :: nat) = 53
     \<or> (of_char c :: nat) = 54 \<or> (of_char c :: nat) = 55 \<or> (of_char c :: nat) = 56
     \<or> (of_char c :: nat) = 57" by arith
  then have "of_char c = (of_char CHR ''0'' :: nat) \<or> of_char c = (of_char CHR ''1'' :: nat)
     \<or> of_char c = (of_char CHR ''2'' :: nat) \<or> of_char c = (of_char CHR ''3'' :: nat)
     \<or> of_char c = (of_char CHR ''4'' :: nat) \<or> of_char c = (of_char CHR ''5'' :: nat)
     \<or> of_char c = (of_char CHR ''6'' :: nat) \<or> of_char c = (of_char CHR ''7'' :: nat)
     \<or> of_char c = (of_char CHR ''8'' :: nat) \<or> of_char c = (of_char CHR ''9'' :: nat)"
    by simp
  then have "c = CHR ''0'' \<or> c = CHR ''1'' \<or> c = CHR ''2'' \<or> c = CHR ''3'' \<or> c = CHR ''4''
     \<or> c = CHR ''5'' \<or> c = CHR ''6'' \<or> c = CHR ''7'' \<or> c = CHR ''8'' \<or> c = CHR ''9''"
    unfolding of_char_eq_iff .
  then show "c \<in> set ''0123456789''" by (simp only: list.set insert_iff) blast
next
  assume "c \<in> set ''0123456789''"
  then show "digit_of c \<noteq> None" by (auto simp: digit_of_def)
qed

lemma digit_of_val: "digit_of c = Some d \<Longrightarrow> d = of_char c - 48"
  by (auto simp: digit_of_def split: if_splits)

lemma foldl_dec_ge: "(n::nat) \<le> foldl (\<lambda>n c. 10 * n + (of_char c - 48)) n s"
proof (induction s arbitrary: n)
  case Nil show ?case by simp
next
  case (Cons c cs)
  have "n \<le> 10 * n + (of_char c - 48)" by simp
  also have "\<dots> \<le> foldl (\<lambda>n c. 10 * n + (of_char c - 48)) (10 * n + (of_char c - 48)) cs"
    by (rule Cons.IH)
  finally show ?case by simp
qed

lemma ParseUint_loop_eq:
  "n < 2 ^ 64 \<Longrightarrow> ParseUint_loop n s =
     (if (\<forall>c\<in>set s. c \<in> set ''0123456789'')
         \<and> foldl (\<lambda>n c. 10 * n + (of_char c - 48)) n s < 2 ^ 64
      then Some (foldl (\<lambda>n c. 10 * n + (of_char c - 48)) n s) else None)"
proof (induction s arbitrary: n)
  case Nil
  then show ?case by simp
next
  case (Cons c cs)
  show ?case
  proof (cases "digit_of c")
    case None
    then have "c \<notin> set ''0123456789''" using digit_of_Some_iff [of c] by blast
    with None show ?thesis by simp
  next
    case (Some d)
    then have d: "d = of_char c - 48" by (rule digit_of_val)
    from Some have in_d: "c \<in> set ''0123456789''" using digit_of_Some_iff [of c] by simp
    show ?thesis
    proof (cases "10 * n + d < 2 ^ 64")
      case True
      with Some have "ParseUint_loop n (c # cs) = ParseUint_loop (10 * n + d) cs" by simp
      also note Cons.IH [OF True]
      finally show ?thesis using in_d d by simp
    next
      case False
      have "10 * n + d \<le> foldl (\<lambda>n c. 10 * n + (of_char c - 48)) (10 * n + d) cs"
        by (rule foldl_dec_ge)
      with False have "\<not> foldl (\<lambda>n c. 10 * n + (of_char c - 48)) n (c # cs) < 2 ^ 64"
        using d by simp
      moreover from False Some have "ParseUint_loop n (c # cs) = None" by simp
      ultimately show ?thesis by presburger
    qed
  qed
qed

lemma ParseUint_eq:
  "ParseUint s = (if digits s \<and> dec_value s < 2 ^ 64 then Some (word_of_nat (dec_value s)) else None)"
  unfolding ParseUint_def digits_def dec_value_def by (simp add: ParseUint_loop_eq)

lemma parseUint64_eq:
  "parseUint64 v =
     (if v = [] then Inr 0
      else if digits v \<and> dec_value v < 2 ^ 64 then Inr (word_of_nat (dec_value v))
      else Inl NotUint)"
  unfolding parseUint64_def ParseUint_eq by simp

lemma unat_of_nat64: "n < 2 ^ 64 \<Longrightarrow> unat (word_of_nat n :: 64 word) = n"
  by (rule of_nat_inverse) simp_all

lemma digit_char_val: "d < 10 \<Longrightarrow> (of_char (digit_char d) :: nat) = 48 + d"
  by (simp add: digit_char_def)

lemma digit_char_digit: "d < 10 \<Longrightarrow> digit_char d \<in> set ''0123456789''"
proof -
  assume "d < 10"
  then have "digit_of (digit_char d) \<noteq> None"
    by (simp add: digit_of_def digit_char_val)
  then show ?thesis by (simp only: digit_of_Some_iff)
qed

lemma dec_value_snoc: "dec_value (xs @ [c]) = 10 * dec_value xs + (of_char c - 48)"
  by (simp add: dec_value_def)

lemma decimal_digits: "digits (decimal n)"
proof (induction n rule: decimal.induct)
  case (1 n)
  show ?case
  proof (cases "n < 10")
    case True
    then show ?thesis
      using digit_char_digit [of n] by (simp add: decimal.simps [of n] digits_def)
  next
    case False
    with 1 have "digits (decimal (n div 10))" by simp
    moreover have "digit_char (n mod 10) \<in> set ''0123456789''" by (rule digit_char_digit) simp
    ultimately show ?thesis using False by (simp add: decimal.simps [of n] digits_def)
  qed
qed

lemma decimal_value: "dec_value (decimal n) = n"
proof (induction n rule: decimal.induct)
  case (1 n)
  show ?case
  proof (cases "n < 10")
    case True
    then show ?thesis
      by (simp add: decimal.simps [of n] dec_value_def digit_char_val)
  next
    case False
    with 1 have "dec_value (decimal (n div 10)) = n div 10" by simp
    then show ?thesis using False
      by (simp add: decimal.simps [of n] dec_value_snoc digit_char_val)
  qed
qed

lemma ParseUint_FormatUint: "ParseUint (FormatUint w) = Some w"
proof -
  have "unat w < 2 ^ 64" using unsigned_less [of w] by simp
  then show ?thesis
    unfolding FormatUint_def ParseUint_eq by (simp add: decimal_digits decimal_value)
qed

lemma opt_snoc:
  "(case x of None \<Rightarrow> strs | Some a \<Rightarrow> strs @ [f a])
     = strs @ (case x of None \<Rightarrow> [] | Some a \<Rightarrow> [f a])"
  by (cases x) simp_all

lemma opt_snoc_tags:
  "(case x of None \<Rightarrow> strs | Some ts \<Rightarrow> if length ts > 0 then strs @ [f ts] else strs)
     = strs @ (case x of None \<Rightarrow> [] | Some ts \<Rightarrow> if ts = [] then [] else [f ts])"
  by (cases x) simp_all

lemma opt_snoc_zone:
  "(case x of None \<Rightarrow> strs | Some z \<Rightarrow> if z \<noteq> [] then strs @ [f z] else strs)
     = strs @ (case x of None \<Rightarrow> [] | Some z \<Rightarrow> if z = [] then [] else [f z])"
  by (cases x) simp_all

lemma String_rendered: "HardwareCharacteristics_String hc = Join (rendered hc) '' ''"
  unfolding HardwareCharacteristics_String_def rendered_def Let_def FormatUint_def
    opt_snoc opt_snoc_tags opt_snoc_zone
  by (simp only: append_Nil append_assoc)

lemma length_opt: "length (case x of None \<Rightarrow> [] | Some a \<Rightarrow> [f a]) = of_bool (x \<noteq> None)"
  by (cases x) simp_all

lemma length_opt_ne:
  "length (case x of None \<Rightarrow> [] | Some a \<Rightarrow> if a = [] then [] else [f a])
     = of_bool (x \<noteq> None \<and> x \<noteq> Some [])"
  by (cases x) simp_all

lemma length_rendered:
  "length (rendered hc) =
     of_bool (Arch hc \<noteq> None) + of_bool (CpuCores hc \<noteq> None) + of_bool (CpuPower hc \<noteq> None)
     + of_bool (Mem hc \<noteq> None) + of_bool (RootDisk hc \<noteq> None)
     + of_bool (Tags hc \<noteq> None \<and> Tags hc \<noteq> Some [])
     + of_bool (AvailabilityZone hc \<noteq> None \<and> AvailabilityZone hc \<noteq> Some [])"
  unfolding rendered_def length_append length_opt length_opt_ne by simp

lemma drop_last: "str \<noteq> [] \<Longrightarrow> drop (length str - 1) str = [last str]"
  by (induction str rule: rev_induct) simp_all

lemma take_butlast: "take (length str - 1) str = butlast str"
  by (simp add: butlast_conv_take)

lemma mbSuffixes_char: "mbSuffixes [c] = size_multiplier c"
  by (simp add: mbSuffixes_def size_multiplier_def)

lemma parseSize_split:
  assumes "str \<noteq> []" "split_size str = (p, m)"
  shows "parseSize L str =
     (case ParseFloat L p of
        None \<Rightarrow> Inl NotSize
      | Some val \<Rightarrow>
          if f64_lt0 val then Inl NotSize
          else Inr (uint64_of_float L (Ceil (f64_scale val m))))"
proof (cases "size_multiplier (last str)")
  case None
  with assms have pm: "p = str" "m = 1" by (simp_all add: split_size_def)
  from None assms(1) show ?thesis
    unfolding pm parseSize_def drop_last [OF assms(1)] mbSuffixes_char take_butlast by simp
next
  case (Some m')
  with assms have pm: "p = butlast str" "m = m'" by (simp_all add: split_size_def)
  from Some assms(1) show ?thesis
    unfolding pm parseSize_def drop_last [OF assms(1)] mbSuffixes_char take_butlast by simp
qed

lemma split_size_mult: "split_size str = (p, m) \<Longrightarrow> 1 \<le> m"
  by (auto simp: split_size_def size_multiplier_def split: if_splits option.splits)

lemma ceil_in_range:
  assumes "0 \<le> q" "1 \<le> m" "\<lceil>q * m\<rceil> < 2 ^ 64"
  shows "uint64_of_float L (Ceil (f64_scale (Fin64 q) m)) = word_of_int \<lceil>q * m\<rceil>"
proof -
  from assms(1,2) have nn: "0 \<le> q * m" by simp
  have "q * m \<le> of_int \<lceil>q * m\<rceil>" by (rule le_of_int_ceiling)
  also from assms(3) have "(of_int \<lceil>q * m\<rceil> :: rat) < of_int (2 ^ 64)"
    by (simp only: of_int_less_iff)
  also have "(of_int (2 ^ 64) :: rat) \<le> 2 ^ 1024" by simp
  finally have "\<bar>q * m\<bar> < 2 ^ 1024" using nn by simp
  then have s: "f64_scale (Fin64 q) m = Fin64 (q * m)" by simp
  from nn have c0: "0 \<le> \<lceil>q * m\<rceil>" by (simp add: ceiling_le_iff le_ceiling_iff)
  then have t: "trunc0 (of_int \<lceil>q * m\<rceil>) = \<lceil>q * m\<rceil>" by (simp add: trunc0_def)
  show ?thesis unfolding s Ceil.simps uint64_of_float.simps t using c0 assms(3) by simp
qed

lemma uint_in_range: "0 \<le> c \<Longrightarrow> c < 2 ^ 64 \<Longrightarrow> uint (word_of_int c :: 64 word) = c"
  by (simp add: uint_word_of_int take_bit_int_eq_self)

lemma setMem_free:
  "Mem hc = None \<Longrightarrow> setRaw L hc (''mem='' @ str) =
     (case parseSize L str of Inl e \<Rightarrow> Inl (Bad ''mem'' e) | Inr w \<Rightarrow> Inr (hc\<lparr>Mem := Some w\<rparr>))"
  unfolding setRaw_mem by (simp add: bad_def setMem_def split: sum.splits)

lemma setRootDisk_free:
  "RootDisk hc = None \<Longrightarrow> setRaw L hc (''root-disk='' @ str) =
     (case parseSize L str of Inl e \<Rightarrow> Inl (Bad ''root-disk'' e)
      | Inr w \<Rightarrow> Inr (hc\<lparr>RootDisk := Some w\<rparr>))"
  unfolding setRaw_root_disk by (simp add: bad_def setRootDisk_def split: sum.splits)

lemma parse_single:
  assumes "raws_of [a] = [a]" "a \<noteq> []"
  shows "ParseHardware L [a] =
     (case setRaw L zero_hc a of Inl e \<Rightarrow> (zero_hc, Some e) | Inr hc \<Rightarrow> (hc, None))"
  unfolding ParseHardware_raws assms(1) using assms(2) by (simp split: sum.splits)

lemma size_example:
  assumes "ParseFloat L p = Some (Fin64 q)" "0 \<le> q" "split_size str = (p, m)" "str \<noteq> []"
    "\<lceil>q * m\<rceil> < 2 ^ 64"
  shows "parseSize L str = Inr (word_of_int \<lceil>q * m\<rceil>)"
proof -
  have c: "uint64_of_float L (Ceil (f64_scale (Fin64 q) m)) = word_of_int \<lceil>q * m\<rceil>"
    by (rule ceil_in_range [OF assms(2) split_size_mult [OF assms(3)] assms(5)])
  have n: "\<not> f64_lt0 (Fin64 q)" using assms(2) by simp
  show ?thesis unfolding parseSize_split [OF assms(4,3)] assms(1) option.case c using n
    by (simp only: if_False)
qed




lemma trimmed_eval:
  "leading_space t = None \<Longrightarrow> trailing_space t = None \<Longrightarrow> TrimSpace t = t"
  by (simp add: TrimSpace_id_iff)

lemma setRaw_Inr_value:
  assumes "setRaw L hc raw = Inr hc'"
  shows "\<exists>str. set str \<subseteq> set raw \<and>
     (setArch L hc str = Inr hc' \<or> setCpuCores hc str = Inr hc' \<or> setCpuPower hc str = Inr hc'
      \<or> setMem L hc str = Inr hc' \<or> setRootDisk L hc str = Inr hc' \<or> setTags hc str = Inr hc'
      \<or> setAvailabilityZone hc str = Inr hc')"
proof -
  let ?str = "drop (nat (Index raw CHR ''='') + 1) raw"
  have "set ?str \<subseteq> set raw" by (rule set_drop_subset)
  moreover from assms have "setArch L hc ?str = Inr hc' \<or> setCpuCores hc ?str = Inr hc'
      \<or> setCpuPower hc ?str = Inr hc' \<or> setMem L hc ?str = Inr hc'
      \<or> setRootDisk L hc ?str = Inr hc' \<or> setTags hc ?str = Inr hc'
      \<or> setAvailabilityZone hc ?str = Inr hc'"
    unfolding setRaw_def Let_def by (simp add: bad_Inr split: if_splits)
  ultimately show ?thesis by blast
qed

lemma setRaw_shape:
  assumes "setRaw L hc raw = Inr hc'" "CHR '' '' \<notin> set raw" "parsed_shape L hc"
  shows "parsed_shape L hc'"
proof -
  from setRaw_Inr_value [OF assms(1)] obtain str where s: "set str \<subseteq> set raw"
    and c: "setArch L hc str = Inr hc' \<or> setCpuCores hc str = Inr hc' \<or> setCpuPower hc str = Inr hc'
      \<or> setMem L hc str = Inr hc' \<or> setRootDisk L hc str = Inr hc' \<or> setTags hc str = Inr hc'
      \<or> setAvailabilityZone hc str = Inr hc'" by blast
  from s assms(2) have ns: "CHR '' '' \<notin> set str" by blast
  from c show ?thesis
  proof (elim disjE)
    assume "setArch L hc str = Inr hc'"
    with assms(3) ns show ?thesis by (auto simp: setArch_Inr parsed_shape_def)
  next
    assume "setCpuCores hc str = Inr hc'"
    with assms(3) show ?thesis by (auto simp: setCpuCores_Inr parsed_shape_def)
  next
    assume "setCpuPower hc str = Inr hc'"
    with assms(3) show ?thesis by (auto simp: setCpuPower_Inr parsed_shape_def)
  next
    assume "setMem L hc str = Inr hc'"
    with assms(3) show ?thesis by (auto simp: setMem_Inr parsed_shape_def)
  next
    assume "setRootDisk L hc str = Inr hc'"
    with assms(3) show ?thesis by (auto simp: setRootDisk_Inr parsed_shape_def)
  next
    assume "setTags hc str = Inr hc'"
    with assms(3) ns show ?thesis by (auto simp: setTags_Inr parsed_shape_def)
  next
    assume "setAvailabilityZone hc str = Inr hc'"
    with assms(3) ns show ?thesis
      by (auto simp: setAvailabilityZone_Inr parsed_shape_def split: if_splits)
  qed
qed

lemma setRaws_shape:
  "setRaws L hc raws = Inr hc' \<Longrightarrow> \<forall>r\<in>set raws. CHR '' '' \<notin> set r \<Longrightarrow> parsed_shape L hc
     \<Longrightarrow> parsed_shape L hc'"
proof (induction raws arbitrary: hc)
  case Nil then show ?case by simp
next
  case (Cons raw raws)
  show ?case
  proof (cases "raw = []")
    case True with Cons show ?thesis by simp
  next
    case False
    with Cons.prems(1) obtain h where h: "setRaw L hc raw = Inr h" "setRaws L h raws = Inr hc'"
      by (auto split: sum.splits)
    from Cons.prems(2) have "CHR '' '' \<notin> set raw" by simp
    from setRaw_shape [OF h(1) this Cons.prems(3)] have "parsed_shape L h" .
    with Cons.IH [OF h(2)] Cons.prems(2) show ?thesis by simp
  qed
qed

lemma raws_of_no_space: "r \<in> set (raws_of args) \<Longrightarrow> CHR '' '' \<notin> set r"
  by (auto simp: raws_of_def dest: Split_pieces)

lemma parsed_shape_zero: "parsed_shape L zero_hc"
  by (simp add: parsed_shape_def zero_hc_def)

lemma ParseHardware_shape:
  assumes "ParseHardware L args = (hc, None)"
  shows "parsed_shape L hc"
proof -
  from assms have "setRaws L zero_hc (raws_of args) = Inr hc"
    by (auto simp: ParseHardware_raws split: sum.splits)
  moreover have "\<forall>r\<in>set (raws_of args). CHR '' '' \<notin> set r"
    using raws_of_no_space by blast
  ultimately show ?thesis using parsed_shape_zero by (rule setRaws_shape)
qed

lemma setRaws_single:
  "raw \<noteq> [] \<Longrightarrow> setRaws L hc [raw] = setRaw L hc raw"
  by (simp split: sum.splits)

lemma decimal_nonempty: "decimal n \<noteq> []"
  using decimal_digits [of n] unfolding digits_def by blast

lemma decimal_no_space: "CHR '' '' \<notin> set (decimal n)"
proof -
  have "CHR '' '' \<notin> set ''0123456789''" by simp
  moreover have "\<forall>c\<in>set (decimal n). c \<in> set ''0123456789''"
    using decimal_digits [of n] unfolding digits_def by blast
  ultimately show ?thesis by blast
qed

lemma parseUint64_FormatUint: "parseUint64 (decimal (unat n)) = Inr n"
  using ParseUint_FormatUint [of n] decimal_nonempty [of "unat n"]
  by (simp add: parseUint64_def FormatUint_def)

lemma step_arch:
  assumes "Arch h = None" "\<forall>a. x = Some a \<longrightarrow> a = [] \<or> IsSupportedArch L a"
  shows "setRaws L h (case x of None \<Rightarrow> [] | Some a \<Rightarrow> [''arch='' @ a]) = Inr (h\<lparr>Arch := x\<rparr>)"
proof (cases x)
  case None with assms(1) show ?thesis by simp
next
  case (Some a)
  with assms have "setRaw L h (''arch='' @ a) = Inr (h\<lparr>Arch := Some a\<rparr>)"
    unfolding setRaw_arch by (auto simp: bad_Inr setArch_Inr)
  with Some show ?thesis by (simp add: setRaws_single)
qed

lemma step_cores:
  assumes "CpuCores h = None"
  shows "setRaws L h (case x of None \<Rightarrow> [] | Some n \<Rightarrow> [''cores='' @ decimal (unat n)])
     = Inr (h\<lparr>CpuCores := x\<rparr>)"
proof (cases x)
  case None with assms(1) show ?thesis by simp
next
  case (Some n)
  from assms have "setRaw L h (''cores='' @ decimal (unat n)) = Inr (h\<lparr>CpuCores := Some n\<rparr>)"
    unfolding setRaw_cores by (simp add: bad_Inr setCpuCores_Inr parseUint64_FormatUint)
  with Some show ?thesis by (simp add: setRaws_single)
qed

lemma step_power:
  assumes "CpuPower h = None"
  shows "setRaws L h (case x of None \<Rightarrow> [] | Some n \<Rightarrow> [''cpu-power='' @ decimal (unat n)])
     = Inr (h\<lparr>CpuPower := x\<rparr>)"
proof (cases x)
  case None with assms(1) show ?thesis by simp
next
  case (Some n)
  from assms have "setRaw L h (''cpu-power='' @ decimal (unat n)) = Inr (h\<lparr>CpuPower := Some n\<rparr>)"
    unfolding setRaw_cpu_power by (simp add: bad_Inr setCpuPower_Inr parseUint64_FormatUint)
  with Some show ?thesis by (simp add: setRaws_single)
qed

lemma split_size_M: "d \<noteq> [] \<Longrightarrow> split_size (d @ ''M'') = (d, 1)"
  by (simp add: split_size_def size_multiplier_def)

lemma parseSize_FormatUint:
  assumes "ParseFloat L (decimal (unat n)) = Some (Fin64 (of_nat (unat n)))"
  shows "parseSize L (decimal (unat n) @ ''M'') = Inr n"
proof -
  have b: "int (unat n) < 2 ^ 64" using unsigned_less [of n] by simp
  have sp: "split_size (decimal (unat n) @ ''M'') = (decimal (unat n), 1)"
    by (rule split_size_M) (rule decimal_nonempty)
  have q0: "(0::rat) \<le> of_nat (unat n)" by (simp only: of_nat_0_le_iff)
  have c: "\<lceil>(of_nat (unat n) :: rat) * 1\<rceil> = int (unat n)"
    by (simp only: mult_1_right ceiling_of_nat)
  have ne: "decimal (unat n) @ ''M'' \<noteq> []" by simp
  have "parseSize L (decimal (unat n) @ ''M'')
      = Inr (word_of_int \<lceil>(of_nat (unat n) :: rat) * 1\<rceil>)"
    using b by (intro size_example [OF assms q0 sp ne]) (simp only: c)
  then show ?thesis unfolding c by simp
qed

lemma step_mem:
  assumes "Mem h = None"
    "\<forall>n. x = Some n \<longrightarrow> ParseFloat L (decimal (unat n)) = Some (Fin64 (of_nat (unat n)))"
  shows "setRaws L h (case x of None \<Rightarrow> [] | Some n \<Rightarrow> [''mem='' @ decimal (unat n) @ ''M''])
     = Inr (h\<lparr>Mem := x\<rparr>)"
proof (cases x)
  case None with assms(1) show ?thesis by simp
next
  case (Some n)
  with assms(2) have "parseSize L (decimal (unat n) @ ''M'') = Inr n"
    by (simp add: parseSize_FormatUint)
  with assms(1) have "setRaw L h (''mem='' @ decimal (unat n) @ ''M'') = Inr (h\<lparr>Mem := Some n\<rparr>)"
    unfolding setRaw_mem by (simp add: bad_Inr setMem_Inr)
  with Some show ?thesis by (simp add: setRaws_single)
qed

lemma step_root:
  assumes "RootDisk h = None"
    "\<forall>n. x = Some n \<longrightarrow> ParseFloat L (decimal (unat n)) = Some (Fin64 (of_nat (unat n)))"
  shows "setRaws L h (case x of None \<Rightarrow> [] | Some n \<Rightarrow> [''root-disk='' @ decimal (unat n) @ ''M''])
     = Inr (h\<lparr>RootDisk := x\<rparr>)"
proof (cases x)
  case None with assms(1) show ?thesis by simp
next
  case (Some n)
  with assms(2) have "parseSize L (decimal (unat n) @ ''M'') = Inr n"
    by (simp add: parseSize_FormatUint)
  with assms(1) have "setRaw L h (''root-disk='' @ decimal (unat n) @ ''M'')
      = Inr (h\<lparr>RootDisk := Some n\<rparr>)"
    unfolding setRaw_root_disk by (simp add: bad_Inr setRootDisk_Inr)
  with Some show ?thesis by (simp add: setRaws_single)
qed

lemma parseTags_Join:
  assumes "ts = parseTags s" "ts \<noteq> []"
  shows "Join ts '','' = s \<and> parseTags (Join ts '','') = ts"
proof -
  from assms have s: "s \<noteq> []" "ts = Split s CHR '',''" by (auto simp: parseTags_def split: if_splits)
  then have "Join ts [CHR '',''] = s" by (simp add: Join_Split)
  with assms(1) show ?thesis by simp
qed

lemma step_tags:
  assumes "Tags h = None" "\<forall>ts. x = Some ts \<longrightarrow> (\<exists>s. ts = parseTags s)"
  shows "setRaws L h (case x of None \<Rightarrow> []
       | Some ts \<Rightarrow> if ts = [] then [] else [''tags='' @ Join ts '',''])
     = Inr (h\<lparr>Tags := (if x = Some [] then None else x)\<rparr>)"
proof (cases x)
  case None with assms(1) show ?thesis by simp
next
  case (Some ts)
  show ?thesis
  proof (cases "ts = []")
    case True with Some assms(1) show ?thesis by simp
  next
    case False
    from assms(2) Some obtain s where "ts = parseTags s" by blast
    from parseTags_Join [OF this False] have "parseTags (Join ts '','') = ts" by blast
    with assms(1) have "setRaw L h (''tags='' @ Join ts '','') = Inr (h\<lparr>Tags := Some ts\<rparr>)"
      unfolding setRaw_tags by (simp add: bad_Inr setTags_Inr)
    with Some False show ?thesis by (simp add: setRaws_single)
  qed
qed

lemma step_zone:
  assumes "AvailabilityZone h = None" "\<forall>z. x = Some z \<longrightarrow> z \<noteq> []"
  shows "setRaws L h (case x of None \<Rightarrow> []
       | Some z \<Rightarrow> if z = [] then [] else [''availability-zone='' @ z])
     = Inr (h\<lparr>AvailabilityZone := x\<rparr>)"
proof (cases x)
  case None with assms(1) show ?thesis by simp
next
  case (Some z)
  with assms have "setRaw L h (''availability-zone='' @ z) = Inr (h\<lparr>AvailabilityZone := Some z\<rparr>)"
    unfolding setRaw_zone by (simp add: bad_Inr setAvailabilityZone_Inr)
  with Some assms(2) show ?thesis by (simp add: setRaws_single)
qed

lemma setRaws_then:
  "setRaws L h xs = Inr h' \<Longrightarrow> setRaws L h (xs @ ys) = setRaws L h' ys"
  by (simp add: setRaws_append)

lemma mem_opt:
  "p \<in> set (case x of None \<Rightarrow> [] | Some a \<Rightarrow> [f a]) \<longleftrightarrow> (\<exists>a. x = Some a \<and> p = f a)"
  by (cases x) auto

lemma mem_opt_ne:
  "p \<in> set (case x of None \<Rightarrow> [] | Some a \<Rightarrow> if a = [] then [] else [f a])
     \<longleftrightarrow> (\<exists>a. x = Some a \<and> a \<noteq> [] \<and> p = f a)"
  by (cases x) auto

lemma rendered_mem:
  "p \<in> set (rendered hc) \<longleftrightarrow>
     (\<exists>a. Arch hc = Some a \<and> p = ''arch='' @ a)
     \<or> (\<exists>n. CpuCores hc = Some n \<and> p = ''cores='' @ decimal (unat n))
     \<or> (\<exists>n. CpuPower hc = Some n \<and> p = ''cpu-power='' @ decimal (unat n))
     \<or> (\<exists>n. Mem hc = Some n \<and> p = ''mem='' @ decimal (unat n) @ ''M'')
     \<or> (\<exists>n. RootDisk hc = Some n \<and> p = ''root-disk='' @ decimal (unat n) @ ''M'')
     \<or> (\<exists>ts. Tags hc = Some ts \<and> ts \<noteq> [] \<and> p = ''tags='' @ Join ts '','')
     \<or> (\<exists>z. AvailabilityZone hc = Some z \<and> z \<noteq> [] \<and> p = ''availability-zone='' @ z)"
  unfolding rendered_def set_append Un_iff mem_opt mem_opt_ne by (rule refl)

lemma rendered_piece:
  assumes "parsed_shape L hc" "p \<in> set (rendered hc)"
  shows "p \<noteq> [] \<and> CHR '' '' \<notin> set p \<and> hd p \<in> set ''acmrt''"
  using assms(2) unfolding rendered_mem
proof (elim disjE exE conjE)
  fix a assume "Arch hc = Some a" "p = ''arch='' @ a"
  with assms(1) show ?thesis by (simp add: parsed_shape_def)
next
  fix n assume "CpuCores hc = Some n" "p = ''cores='' @ decimal (unat n)"
  then show ?thesis by (simp add: decimal_no_space)
next
  fix n assume "CpuPower hc = Some n" "p = ''cpu-power='' @ decimal (unat n)"
  then show ?thesis by (simp add: decimal_no_space)
next
  fix n assume "Mem hc = Some n" "p = ''mem='' @ decimal (unat n) @ ''M''"
  then show ?thesis by (simp add: decimal_no_space)
next
  fix n assume "RootDisk hc = Some n" "p = ''root-disk='' @ decimal (unat n) @ ''M''"
  then show ?thesis by (simp add: decimal_no_space)
next
  fix ts assume t: "Tags hc = Some ts" "ts \<noteq> []" "p = ''tags='' @ Join ts '',''"
  with assms(1) obtain s where s: "CHR '' '' \<notin> set s" "ts = parseTags s"
    unfolding parsed_shape_def by blast
  from parseTags_Join [OF s(2) t(2)] have "Join ts '','' = s" by blast
  with s(1) t(3) show ?thesis by simp
next
  fix z assume "AvailabilityZone hc = Some z" "z \<noteq> []" "p = ''availability-zone='' @ z"
  with assms(1) show ?thesis by (simp add: parsed_shape_def)
qed

lemma space_runes_first:
  "w \<in> set space_runes \<Longrightarrow> w \<noteq> [] \<and>
     hd w \<in> set [CHR 0x09, CHR 0x0A, CHR 0x0B, CHR 0x0C, CHR 0x0D, CHR 0x20, CHR 0xC2, CHR 0xE1,
       CHR 0xE2, CHR 0xE3]"
  by (auto simp: space_runes_def)

lemma leading_space_key:
  assumes "c \<in> set ''acmrt''"
  shows "leading_space (c # s) = None"
proof -
  { fix w assume w: "w \<in> set space_runes" "prefix w (c # s)"
    from space_runes_first [OF w(1)] w(2) have "c \<in> set [CHR 0x09, CHR 0x0A, CHR 0x0B, CHR 0x0C,
       CHR 0x0D, CHR 0x20, CHR 0xC2, CHR 0xE1, CHR 0xE2, CHR 0xE3]"
      by (cases w) auto
    with assms have False by auto }
  then show ?thesis unfolding leading_space_None_iff by blast
qed

lemma Join_Cons_hd: "x \<noteq> [] \<Longrightarrow> \<exists>r. Join (x # xs) sep = hd x # r"
  by (cases x; cases xs) auto

lemma leading_space_String:
  assumes "parsed_shape L hc"
  shows "leading_space (HardwareCharacteristics_String hc) = None"
proof (cases "rendered hc")
  case Nil
  then show ?thesis by (simp add: String_rendered leading_space_def space_runes_def)
next
  case (Cons p ps)
  then have "p \<in> set (rendered hc)" by simp
  from rendered_piece [OF assms this] have p: "p \<noteq> []" "hd p \<in> set ''acmrt''" by blast+
  from Join_Cons_hd [OF p(1)] obtain r where "Join (p # ps) '' '' = hd p # r" by blast
  with Cons leading_space_key [OF p(2)] show ?thesis by (simp add: String_rendered)
qed

lemma reparse_rendered:
  assumes sh: "parsed_shape L hc"
    and pf: "\<forall>n. Mem hc = Some n \<or> RootDisk hc = Some n \<longrightarrow>
        ParseFloat L (decimal (unat n)) = Some (Fin64 (of_nat (unat n)))"
  shows "setRaws L zero_hc (rendered hc)
     = Inr (hc\<lparr>Tags := (if Tags hc = Some [] then None else Tags hc)\<rparr>)"
proof -
  define h1 where "h1 = zero_hc\<lparr>Arch := Arch hc\<rparr>"
  define h2 where "h2 = h1\<lparr>CpuCores := CpuCores hc\<rparr>"
  define h3 where "h3 = h2\<lparr>CpuPower := CpuPower hc\<rparr>"
  define h4 where "h4 = h3\<lparr>Mem := Mem hc\<rparr>"
  define h5 where "h5 = h4\<lparr>RootDisk := RootDisk hc\<rparr>"
  define h6 where "h6 = h5\<lparr>Tags := (if Tags hc = Some [] then None else Tags hc)\<rparr>"
  define h7 where "h7 = h6\<lparr>AvailabilityZone := AvailabilityZone hc\<rparr>"
  note hs = h1_def h2_def h3_def h4_def h5_def h6_def h7_def
  have 1: "setRaws L zero_hc (case Arch hc of None \<Rightarrow> [] | Some a \<Rightarrow> [''arch='' @ a]) = Inr h1"
    unfolding h1_def using sh by (intro step_arch) (auto simp: zero_hc_def parsed_shape_def)
  have 2: "setRaws L h1 (case CpuCores hc of None \<Rightarrow> []
      | Some n \<Rightarrow> [''cores='' @ decimal (unat n)]) = Inr h2"
    unfolding h2_def by (intro step_cores) (simp add: hs zero_hc_def)
  have 3: "setRaws L h2 (case CpuPower hc of None \<Rightarrow> []
      | Some n \<Rightarrow> [''cpu-power='' @ decimal (unat n)]) = Inr h3"
    unfolding h3_def by (intro step_power) (simp add: hs zero_hc_def)
  have 4: "setRaws L h3 (case Mem hc of None \<Rightarrow> []
      | Some n \<Rightarrow> [''mem='' @ decimal (unat n) @ ''M'']) = Inr h4"
    unfolding h4_def using pf by (intro step_mem) (simp_all add: hs zero_hc_def)
  have 5: "setRaws L h4 (case RootDisk hc of None \<Rightarrow> []
      | Some n \<Rightarrow> [''root-disk='' @ decimal (unat n) @ ''M'']) = Inr h5"
    unfolding h5_def using pf by (intro step_root) (simp_all add: hs zero_hc_def)
  have 6: "setRaws L h5 (case Tags hc of None \<Rightarrow> []
      | Some ts \<Rightarrow> if ts = [] then [] else [''tags='' @ Join ts '','']) = Inr h6"
    unfolding h6_def using sh by (intro step_tags) (auto simp: hs zero_hc_def parsed_shape_def)
  have 7: "setRaws L h6 (case AvailabilityZone hc of None \<Rightarrow> []
      | Some z \<Rightarrow> if z = [] then [] else [''availability-zone='' @ z]) = Inr h7"
    unfolding h7_def using sh by (intro step_zone) (auto simp: hs zero_hc_def parsed_shape_def)
  have "setRaws L zero_hc (rendered hc) = Inr h7"
    unfolding rendered_def setRaws_then [OF 1] setRaws_then [OF 2] setRaws_then [OF 3]
      setRaws_then [OF 4] setRaws_then [OF 5] setRaws_then [OF 6] by (rule 7)
  moreover have "h7 = hc\<lparr>Tags := (if Tags hc = Some [] then None else Tags hc)\<rparr>"
    unfolding hs zero_hc_def by (cases hc) simp
  ultimately show ?thesis by simp
qed

lemma raws_of_String:
  assumes "parsed_shape L hc" "trailing_space (HardwareCharacteristics_String hc) = None"
  shows "setRaws L h (raws_of [HardwareCharacteristics_String hc]) = setRaws L h (rendered hc)"
proof (cases "rendered hc = []")
  case True
  then have "HardwareCharacteristics_String hc = []" by (simp add: String_rendered)
  moreover have "raws_of [[]] = [[]]" by (simp add: raws_of_Cons raws_of_Nil trim_eval)
  ultimately show ?thesis using True by simp
next
  case False
  have t: "TrimSpace (HardwareCharacteristics_String hc) = HardwareCharacteristics_String hc"
    using leading_space_String [OF assms(1)] assms(2) by (simp add: TrimSpace_id_iff)
  have "\<forall>p\<in>set (rendered hc). CHR '' '' \<notin> set p"
    using rendered_piece [OF assms(1)] by blast
  with False have "Split (Join (rendered hc) [CHR '' '']) CHR '' '' = rendered hc"
    by (rule Split_Join)
  then have "raws_of [HardwareCharacteristics_String hc] = rendered hc"
    unfolding raws_of_Cons raws_of_Nil t by (simp add: String_rendered)
  then show ?thesis by simp
qed

lemma decimal_eval:
  "decimal (Suc 0) = ''1''" "decimal 4 = ''4''" "decimal 2048 = ''2048''"
  by (simp_all add: decimal.simps digit_char_def char_of_eq_iff)

section \<open>The claims\<close>

text \<open>
  C1, as amended. For a non-empty \<open>mem\<close> or \<open>root-disk\<close> value, \<open>parseSize\<close> cuts
  off a last \<open>M\<close>, \<open>G\<close>, \<open>T\<close> or \<open>P\<close> and hands the rest to \<open>ParseFloat\<close>. An error
  from \<open>ParseFloat\<close> or a negative number is "must be a non-negative float ...". A
  non-negative number whose product with the multiplier, rounded up, is below \<open>2 ^ 64\<close>
  gives that integer, and the setter stores it. With \<open>ParseFloat\<close> reading \<open>1\<close>,
  \<open>1.5\<close> and \<open>2\<close> as these numbers, \<open>mem=1G\<close> is 1024, \<open>mem=1.5G\<close> is 1536 and
  \<open>root-disk=2T\<close> is 2097152.
\<close>

theorem size_values:
  "(str \<noteq> [] \<and> split_size str = (p, m) \<longrightarrow>
      (ParseFloat L p = None \<longrightarrow> parseSize L str = Inl NotSize)
      \<and> (ParseFloat L p = Some NInf \<longrightarrow> parseSize L str = Inl NotSize)
      \<and> (\<forall>q. ParseFloat L p = Some (Fin64 q) \<and> q < 0 \<longrightarrow> parseSize L str = Inl NotSize)
      \<and> (\<forall>q. ParseFloat L p = Some (Fin64 q) \<and> 0 \<le> q \<and> \<lceil>q * m\<rceil> < 2 ^ 64 \<longrightarrow>
            (\<exists>w. parseSize L str = Inr w \<and> uint w = \<lceil>q * m\<rceil>)))
   \<and> (Mem hc = None \<longrightarrow>
        setRaw L hc (''mem='' @ str) =
          (case parseSize L str of Inl e \<Rightarrow> Inl (Bad ''mem'' e)
           | Inr w \<Rightarrow> Inr (hc\<lparr>Mem := Some w\<rparr>)))
   \<and> (RootDisk hc = None \<longrightarrow>
        setRaw L hc (''root-disk='' @ str) =
          (case parseSize L str of Inl e \<Rightarrow> Inl (Bad ''root-disk'' e)
           | Inr w \<Rightarrow> Inr (hc\<lparr>RootDisk := Some w\<rparr>)))
   \<and> (ParseFloat L ''1'' = Some (Fin64 1) \<longrightarrow>
        ParseHardware L [''mem=1G''] = (zero_hc\<lparr>Mem := Some 1024\<rparr>, None))
   \<and> (ParseFloat L ''1.5'' = Some (Fin64 (3 / 2)) \<longrightarrow>
        ParseHardware L [''mem=1.5G''] = (zero_hc\<lparr>Mem := Some 1536\<rparr>, None))
   \<and> (ParseFloat L ''2'' = Some (Fin64 2) \<longrightarrow>
        ParseHardware L [''root-disk=2T''] = (zero_hc\<lparr>RootDisk := Some 2097152\<rparr>, None))"
proof (intro conjI impI allI)
  assume a: "str \<noteq> [] \<and> split_size str = (p, m)"
  then have ps: "parseSize L str =
     (case ParseFloat L p of
        None \<Rightarrow> Inl NotSize
      | Some val \<Rightarrow>
          if f64_lt0 val then Inl NotSize
          else Inr (uint64_of_float L (Ceil (f64_scale val m))))"
    using parseSize_split by blast
  { assume "ParseFloat L p = None"
    then show "parseSize L str = Inl NotSize" unfolding ps by simp }
  { assume "ParseFloat L p = Some NInf"
    then show "parseSize L str = Inl NotSize" unfolding ps by simp }
  { fix q assume "ParseFloat L p = Some (Fin64 q) \<and> q < 0"
    then show "parseSize L str = Inl NotSize" unfolding ps by simp }
  { fix q assume q: "ParseFloat L p = Some (Fin64 q) \<and> 0 \<le> q \<and> \<lceil>q * m\<rceil> < 2 ^ 64"
    with a have "parseSize L str = Inr (word_of_int \<lceil>q * m\<rceil>)" using size_example by blast
    moreover from a q have "0 \<le> q * m" using split_size_mult [of str p m] by simp
    then have "0 \<le> \<lceil>q * m\<rceil>" by (simp add: le_ceiling_iff)
    with q have "uint (word_of_int \<lceil>q * m\<rceil> :: 64 word) = \<lceil>q * m\<rceil>"
      using uint_in_range by blast
    ultimately show "\<exists>w. parseSize L str = Inr w \<and> uint w = \<lceil>q * m\<rceil>" by blast }
next
  assume "Mem hc = None"
  then show "setRaw L hc (''mem='' @ str) =
          (case parseSize L str of Inl e \<Rightarrow> Inl (Bad ''mem'' e)
           | Inr w \<Rightarrow> Inr (hc\<lparr>Mem := Some w\<rparr>))" by (rule setMem_free)
next
  assume "RootDisk hc = None"
  then show "setRaw L hc (''root-disk='' @ str) =
          (case parseSize L str of Inl e \<Rightarrow> Inl (Bad ''root-disk'' e)
           | Inr w \<Rightarrow> Inr (hc\<lparr>RootDisk := Some w\<rparr>))" by (rule setRootDisk_free)
next
  assume pf: "ParseFloat L ''1'' = Some (Fin64 1)"
  have sp: "split_size ''1G'' = (''1'', 1024)" by (simp add: split_size_def size_multiplier_def)
  have "parseSize L ''1G'' = Inr (word_of_int \<lceil>(1::rat) * 1024\<rceil>)"
    by (rule size_example [OF pf _ sp]) simp_all
  then have "setRaw L zero_hc (''mem='' @ ''1G'') = Inr (zero_hc\<lparr>Mem := Some 1024\<rparr>)"
    using setMem_free [of zero_hc L "''1G''"] by (simp add: zero_hc_def)
  moreover have "raws_of [''mem=1G''] = [''mem=1G'']"
    by (simp add: raws_of_Cons raws_of_Nil trim_eval)
  ultimately show "ParseHardware L [''mem=1G''] = (zero_hc\<lparr>Mem := Some 1024\<rparr>, None)"
    by (simp add: parse_single)
next
  assume pf: "ParseFloat L ''1.5'' = Some (Fin64 (3 / 2))"
  have sp: "split_size ''1.5G'' = (''1.5'', 1024)" by (simp add: split_size_def size_multiplier_def)
  have "parseSize L ''1.5G'' = Inr (word_of_int \<lceil>(3 / 2 :: rat) * 1024\<rceil>)"
    by (rule size_example [OF pf _ sp]) simp_all
  then have "setRaw L zero_hc (''mem='' @ ''1.5G'') = Inr (zero_hc\<lparr>Mem := Some 1536\<rparr>)"
    using setMem_free [of zero_hc L "''1.5G''"] by (simp add: zero_hc_def)
  moreover have "raws_of [''mem=1.5G''] = [''mem=1.5G'']"
    by (simp add: raws_of_Cons raws_of_Nil trim_eval)
  ultimately show "ParseHardware L [''mem=1.5G''] = (zero_hc\<lparr>Mem := Some 1536\<rparr>, None)"
    by (simp add: parse_single)
next
  assume pf: "ParseFloat L ''2'' = Some (Fin64 2)"
  have sp: "split_size ''2T'' = (''2'', 1024 ^ 2)" by (simp add: split_size_def size_multiplier_def)
  have "parseSize L ''2T'' = Inr (word_of_int \<lceil>(2 :: rat) * 1024 ^ 2\<rceil>)"
    by (rule size_example [OF pf _ sp]) simp_all
  then have "setRaw L zero_hc (''root-disk='' @ ''2T'') = Inr (zero_hc\<lparr>RootDisk := Some 2097152\<rparr>)"
    using setRootDisk_free [of zero_hc L "''2T''"] by (simp add: zero_hc_def)
  moreover have "raws_of [''root-disk=2T''] = [''root-disk=2T'']"
    by (simp add: raws_of_Cons raws_of_Nil trim_eval)
  ultimately show "ParseHardware L [''root-disk=2T''] = (zero_hc\<lparr>RootDisk := Some 2097152\<rparr>, None)"
    by (simp add: parse_single)
qed

theorem size_values_witness:
  "setRaw sample_extern zero_hc ''mem=1.5G'' = Inr (zero_hc\<lparr>Mem := Some 1536\<rparr>)
   \<and> setRaw sample_extern zero_hc ''root-disk=-5'' = Inl (Bad ''root-disk'' NotSize)
   \<and> setRaw sample_extern zero_hc ''mem=abc'' = Inl (Bad ''mem'' NotSize)
   \<and> ParseHardware sample_extern [''mem=1G''] = (zero_hc\<lparr>Mem := Some 1024\<rparr>, None)
   \<and> ParseHardware sample_extern [''mem=1.5G''] = (zero_hc\<lparr>Mem := Some 1536\<rparr>, None)
   \<and> ParseHardware sample_extern [''root-disk=2T''] = (zero_hc\<lparr>RootDisk := Some 2097152\<rparr>, None)"
proof -
  have z: "Mem zero_hc = None" "RootDisk zero_hc = None" by (simp_all add: zero_hc_def)
  have f: "ParseFloat sample_extern ''1'' = Some (Fin64 1)"
    "ParseFloat sample_extern ''1.5'' = Some (Fin64 (3 / 2))"
    "ParseFloat sample_extern ''2'' = Some (Fin64 2)"
    "ParseFloat sample_extern ''-5'' = Some (Fin64 (- 5))"
    "ParseFloat sample_extern ''abc'' = None"
    by (simp_all add: sample_extern_def)
  have s1: "''1.5G'' \<noteq> [] \<and> split_size ''1.5G'' = (''1.5'', 1024)"
    by (simp add: split_size_def size_multiplier_def)
  have r1: "ParseFloat sample_extern ''1.5'' = Some (Fin64 (3 / 2)) \<and> (0::rat) \<le> 3 / 2
      \<and> \<lceil>(3 / 2 :: rat) * 1024\<rceil> < 2 ^ 64" using f by simp
  from size_values [of "''1.5G''" "''1.5''" 1024 sample_extern zero_hc] s1 r1
  obtain w :: "64 word" where w: "parseSize sample_extern ''1.5G'' = Inr w"
    "uint w = \<lceil>(3 / 2 :: rat) * 1024\<rceil>" by blast
  from w(2) have "uint w = 1536" by simp
  then have "w = 1536" by (metis word_of_int_uint word_of_int_numeral)
  with w(1) z size_values [of "''1.5G''" "''1.5''" 1024 sample_extern zero_hc]
  have 1: "setRaw sample_extern zero_hc ''mem=1.5G'' = Inr (zero_hc\<lparr>Mem := Some 1536\<rparr>)" by simp
  have s2: "''-5'' \<noteq> [] \<and> split_size ''-5'' = (''-5'', 1)"
    by (simp add: split_size_def size_multiplier_def)
  have r2: "ParseFloat sample_extern ''-5'' = Some (Fin64 (- 5)) \<and> (- 5 :: rat) < 0" using f by simp
  from size_values [of "''-5''" "''-5''" 1 sample_extern zero_hc] s2 r2
  have "parseSize sample_extern ''-5'' = Inl NotSize" by blast
  with z size_values [of "''-5''" "''-5''" 1 sample_extern zero_hc]
  have 2: "setRaw sample_extern zero_hc ''root-disk=-5'' = Inl (Bad ''root-disk'' NotSize)" by simp
  have s3: "''abc'' \<noteq> [] \<and> split_size ''abc'' = (''abc'', 1)"
    by (simp add: split_size_def size_multiplier_def)
  from size_values [of "''abc''" "''abc''" 1 sample_extern zero_hc] s3 f(5)
  have "parseSize sample_extern ''abc'' = Inl NotSize" by blast
  with z size_values [of "''abc''" "''abc''" 1 sample_extern zero_hc]
  have 3: "setRaw sample_extern zero_hc ''mem=abc'' = Inl (Bad ''mem'' NotSize)" by simp
  from size_values [of "''1.5G''" "''1.5''" 1024 sample_extern zero_hc] f
  have 4: "ParseHardware sample_extern [''mem=1G''] = (zero_hc\<lparr>Mem := Some 1024\<rparr>, None)"
    "ParseHardware sample_extern [''mem=1.5G''] = (zero_hc\<lparr>Mem := Some 1536\<rparr>, None)"
    "ParseHardware sample_extern [''root-disk=2T''] = (zero_hc\<lparr>RootDisk := Some 2097152\<rparr>, None)"
    by blast+
  from 1 2 3 4 show ?thesis by blast
qed

text \<open>
  The claim as stated fails at two kinds of value. The empty value has an empty prefix,
  which is no number, and yet is accepted as \<open>0\<close>. And a product of \<open>2 ^ 64\<close> or more is
  not what the field holds, whatever the conversion to \<open>uint64\<close> makes of it.
\<close>

theorem size_values_counterexample:
  "split_size [] = ([], 1)
   \<and> ParseFloat sample_extern [] = None
   \<and> parseSize sample_extern [] = Inr 0
   \<and> ParseHardware sample_extern [''mem=''] = (zero_hc\<lparr>Mem := Some 0\<rparr>, None)
   \<and> split_size ''18446744073709551616'' = (''18446744073709551616'', 1)
   \<and> ParseFloat sample_extern ''18446744073709551616'' = Some (Fin64 18446744073709551616)
   \<and> \<lceil>(18446744073709551616 :: rat) * 1\<rceil> = 18446744073709551616
   \<and> parseSize sample_extern ''18446744073709551616''
       = Inr (ConvUnrepresentable sample_extern (Fin64 18446744073709551616))
   \<and> uint (ConvUnrepresentable sample_extern (Fin64 18446744073709551616)) \<noteq> 18446744073709551616"
proof -
  have 1: "split_size [] = ([], 1)" by (simp add: split_size_def)
  have 2: "ParseFloat sample_extern [] = None" by (simp add: sample_extern_def)
  have 3: "parseSize sample_extern [] = Inr 0" by (rule parseSize_empty)
  have r: "raws_of [''mem=''] = [''mem='']" by (simp add: raws_of_Cons raws_of_Nil trim_eval)
  have "setRaw sample_extern zero_hc (''mem='' @ []) = Inr (zero_hc\<lparr>Mem := Some 0\<rparr>)"
    using setMem_free [of zero_hc sample_extern "[]"] by (simp add: zero_hc_def parseSize_empty)
  then have 4: "ParseHardware sample_extern [''mem=''] = (zero_hc\<lparr>Mem := Some 0\<rparr>, None)"
    using r by (simp add: parse_single)
  have 5: "split_size ''18446744073709551616'' = (''18446744073709551616'', 1)"
    by (simp add: split_size_def size_multiplier_def)
  have 6: "ParseFloat sample_extern ''18446744073709551616'' = Some (Fin64 18446744073709551616)"
    by (simp add: sample_extern_def)
  have 7: "\<lceil>(18446744073709551616 :: rat) * 1\<rceil> = 18446744073709551616" by simp
  have 8: "parseSize sample_extern ''18446744073709551616''
       = Inr (ConvUnrepresentable sample_extern (Fin64 18446744073709551616))"
    using parseSize_split [OF _ 5, of sample_extern] 6 by (simp add: trunc0_def)
  have "uint (ConvUnrepresentable sample_extern (Fin64 18446744073709551616)) < 2 ^ 64"
    using uint_bounded [of "ConvUnrepresentable sample_extern (Fin64 18446744073709551616)"]
    by simp
  then have 9: "uint (ConvUnrepresentable sample_extern (Fin64 18446744073709551616))
      \<noteq> 18446744073709551616" by simp
  from 1 2 3 4 5 6 7 8 9 show ?thesis by blast
qed

text \<open>
  C2, as amended. Take a record that \<open>ParseHardware\<close> returned without error, whose
  rendering does not end with a white-space rune, and let \<open>ParseFloat\<close> read the
  decimal digits of the stored \<open>mem\<close> and \<open>root-disk\<close> values as those values. Then
  \<open>ParseHardware\<close> on the rendering succeeds and returns the same record, every field
  with its value, except that tags which are the empty sequence come back as not set.
\<close>

theorem parse_of_String:
  assumes "ParseHardware L args = (hc, None)"
    and "trailing_space (HardwareCharacteristics_String hc) = None"
    and "\<forall>n. Mem hc = Some n \<or> RootDisk hc = Some n \<longrightarrow>
        ParseFloat L (FormatUint n) = Some (Fin64 (of_nat (unat n)))"
  shows "ParseHardware L [HardwareCharacteristics_String hc]
     = (hc\<lparr>Tags := (if Tags hc = Some [] then None else Tags hc)\<rparr>, None)"
proof -
  from assms(1) have sh: "parsed_shape L hc" by (rule ParseHardware_shape)
  from assms(3) have pf: "\<forall>n. Mem hc = Some n \<or> RootDisk hc = Some n \<longrightarrow>
        ParseFloat L (decimal (unat n)) = Some (Fin64 (of_nat (unat n)))"
    by (simp add: FormatUint_def)
  show ?thesis
    unfolding ParseHardware_raws raws_of_String [OF sh assms(2)] reparse_rendered [OF sh pf]
    by simp
qed

theorem parse_of_String_witness:
  "ParseHardware sample_extern [''arch=amd64 cores=4 mem=2G'', ''tags=foo,bar availability-zone=az1'']
     = (\<lparr>Arch = Some ''amd64'', Mem = Some 2048, RootDisk = None, CpuCores = Some 4,
         CpuPower = None, Tags = Some [''foo'', ''bar''], AvailabilityZone = Some ''az1''\<rparr>, None)
   \<and> HardwareCharacteristics_String
        \<lparr>Arch = Some ''amd64'', Mem = Some 2048, RootDisk = None, CpuCores = Some 4,
         CpuPower = None, Tags = Some [''foo'', ''bar''], AvailabilityZone = Some ''az1''\<rparr>
       = ''arch=amd64 cores=4 mem=2048M tags=foo,bar availability-zone=az1''
   \<and> ParseHardware sample_extern
        [''arch=amd64 cores=4 mem=2048M tags=foo,bar availability-zone=az1'']
     = (\<lparr>Arch = Some ''amd64'', Mem = Some 2048, RootDisk = None, CpuCores = Some 4,
         CpuPower = None, Tags = Some [''foo'', ''bar''], AvailabilityZone = Some ''az1''\<rparr>, None)"
proof -
  let ?H = "\<lparr>Arch = Some ''amd64'', Mem = Some 2048, RootDisk = None, CpuCores = Some 4,
         CpuPower = None, Tags = Some [''foo'', ''bar''], AvailabilityZone = Some ''az1''\<rparr>"
  let ?args = "[''arch=amd64 cores=4 mem=2G'', ''tags=foo,bar availability-zone=az1'']"
  have r: "raws_of ?args
      = [''arch=amd64'', ''cores=4'', ''mem=2G'', ''tags=foo,bar'', ''availability-zone=az1'']"
    by (simp add: raws_of_Cons raws_of_Nil trim_eval)
  let ?h1 = "zero_hc\<lparr>Arch := Some ''amd64''\<rparr>"
  let ?h2 = "?h1\<lparr>CpuCores := Some 4\<rparr>"
  let ?h3 = "?h2\<lparr>Mem := Some 2048\<rparr>"
  let ?h4 = "?h3\<lparr>Tags := Some [''foo'', ''bar'']\<rparr>"
  let ?h5 = "?h4\<lparr>AvailabilityZone := Some ''az1''\<rparr>"
  have 1: "setRaw sample_extern zero_hc ''arch=amd64'' = Inr ?h1"
    using setRaw_arch [of sample_extern zero_hc "''amd64''"]
    by (simp add: bad_def setArch_def zero_hc_def sample_extern_def)
  have 2: "setRaw sample_extern ?h1 ''cores=4'' = Inr ?h2"
    using setRaw_cores [of sample_extern ?h1 "''4''"]
    by (simp add: bad_def setCpuCores_def parseUint64_def ParseUint_def digit_of_def zero_hc_def)
  have sp: "split_size ''2G'' = (''2'', 1024)" by (simp add: split_size_def size_multiplier_def)
  have f2: "ParseFloat sample_extern ''2'' = Some (Fin64 2)" by (simp add: sample_extern_def)
  have "parseSize sample_extern ''2G'' = Inr (word_of_int \<lceil>(2::rat) * 1024\<rceil>)"
    by (rule size_example [OF f2 _ sp]) simp_all
  then have 3: "setRaw sample_extern ?h2 ''mem=2G'' = Inr ?h3"
    using setMem_free [of ?h2 sample_extern "''2G''"] by (simp add: zero_hc_def)
  have 4: "setRaw sample_extern ?h3 ''tags=foo,bar'' = Inr ?h4"
    using setRaw_tags [of sample_extern ?h3 "''foo,bar''"]
    by (simp add: bad_def setTags_def parseTags_def zero_hc_def)
  have 5: "setRaw sample_extern ?h4 ''availability-zone=az1'' = Inr ?h5"
    using setRaw_zone [of sample_extern ?h4 "''az1''"]
    by (simp add: bad_def setAvailabilityZone_def zero_hc_def)
  have e: "?h5 = ?H" by (simp add: zero_hc_def)
  have p: "ParseHardware sample_extern ?args = (?H, None)"
    unfolding ParseHardware_raws r using 1 2 3 4 5 e by simp
  have s: "HardwareCharacteristics_String ?H
      = ''arch=amd64 cores=4 mem=2048M tags=foo,bar availability-zone=az1''"
    by (simp add: String_rendered rendered_def decimal_eval)
  have t: "trailing_space (HardwareCharacteristics_String ?H) = None"
    unfolding s by (simp add: trailing_space_def space_runes_def suffix_to_prefix)
  have f: "\<forall>n. Mem ?H = Some n \<or> RootDisk ?H = Some n \<longrightarrow>
      ParseFloat sample_extern (FormatUint n) = Some (Fin64 (of_nat (unat n)))"
    by (simp add: FormatUint_def decimal_eval sample_extern_def)
  from parse_of_String [OF p t f] s
  have "ParseHardware sample_extern
        [''arch=amd64 cores=4 mem=2048M tags=foo,bar availability-zone=az1''] = (?H, None)"
    by simp
  with p s show ?thesis by blast
qed

text \<open>
  The claim as stated fails when the last rendered value ends with white space other
  than a space: \<open>strings.TrimSpace\<close> removes it before the pieces are cut, so a tag
  that ends with a tab comes back without it.
\<close>

theorem parse_of_String_counterexample:
  "ParseHardware sample_extern [''tags=a'' @ [CHR 0x09] @ '' cores=1'']
     = (zero_hc\<lparr>CpuCores := Some 1, Tags := Some [''a'' @ [CHR 0x09]]\<rparr>, None)
   \<and> HardwareCharacteristics_String (zero_hc\<lparr>CpuCores := Some 1, Tags := Some [''a'' @ [CHR 0x09]]\<rparr>)
       = ''cores=1 tags=a'' @ [CHR 0x09]
   \<and> ParseHardware sample_extern [''cores=1 tags=a'' @ [CHR 0x09]]
     = (zero_hc\<lparr>CpuCores := Some 1, Tags := Some [''a'']\<rparr>, None)"
proof -
  have r: "raws_of [''tags=a'' @ [CHR 0x09] @ '' cores=1''] = [''tags=a'' @ [CHR 0x09], ''cores=1'']"
    by (simp add: raws_of_Cons raws_of_Nil trim_eval)
  have 1: "setRaw sample_extern zero_hc (''tags=a'' @ [CHR 0x09])
      = Inr (zero_hc\<lparr>Tags := Some [''a'' @ [CHR 0x09]]\<rparr>)"
    using setRaw_tags [of sample_extern zero_hc "''a'' @ [CHR 0x09]"]
    by (simp add: bad_def setTags_def parseTags_def zero_hc_def)
  have 2: "setRaw sample_extern (zero_hc\<lparr>Tags := Some [''a'' @ [CHR 0x09]]\<rparr>) ''cores=1''
      = Inr (zero_hc\<lparr>CpuCores := Some 1, Tags := Some [''a'' @ [CHR 0x09]]\<rparr>)"
    using setRaw_cores [of sample_extern "zero_hc\<lparr>Tags := Some [''a'' @ [CHR 0x09]]\<rparr>" "''1''"]
    by (simp add: bad_def setCpuCores_def parseUint64_def ParseUint_def digit_of_def zero_hc_def)
  have a: "ParseHardware sample_extern [''tags=a'' @ [CHR 0x09] @ '' cores=1'']
     = (zero_hc\<lparr>CpuCores := Some 1, Tags := Some [''a'' @ [CHR 0x09]]\<rparr>, None)"
    unfolding ParseHardware_raws r using 1 2 by simp
  have b: "HardwareCharacteristics_String
        (zero_hc\<lparr>CpuCores := Some 1, Tags := Some [''a'' @ [CHR 0x09]]\<rparr>)
       = ''cores=1 tags=a'' @ [CHR 0x09]"
    by (simp add: String_rendered rendered_def decimal_eval zero_hc_def)
  have r2: "raws_of [''cores=1 tags=a'' @ [CHR 0x09]] = [''cores=1'', ''tags=a'']"
    by (simp add: raws_of_Cons raws_of_Nil trim_eval)
  have 3: "setRaw sample_extern (zero_hc\<lparr>CpuCores := Some 1\<rparr>) ''tags=a''
      = Inr (zero_hc\<lparr>CpuCores := Some 1, Tags := Some [''a'']\<rparr>)"
    using setRaw_tags [of sample_extern "zero_hc\<lparr>CpuCores := Some 1\<rparr>" "''a''"]
    by (simp add: bad_def setTags_def parseTags_def zero_hc_def)
  have c: "ParseHardware sample_extern [''cores=1 tags=a'' @ [CHR 0x09]]
     = (zero_hc\<lparr>CpuCores := Some 1, Tags := Some [''a'']\<rparr>, None)"
    unfolding ParseHardware_raws r2 using cores1 [of sample_extern] 3 by simp
  from a b c show ?thesis by blast
qed

text \<open>
  C3, as amended. When two pieces of one call carry the same recognized name, and the
  first of them is not an \<open>availability-zone\<close> piece with an empty value, the call
  fails: the second piece never overwrites the field. When the pieces before the second
  one are all accepted, the error is "already set" for that name; otherwise it is the
  error of the earlier piece that was rejected.
\<close>

theorem second_assignment_rejected:
  assumes "raws_of args = pre @ (k @ CHR ''='' # v1) # mid @ (k @ CHR ''='' # v2) # post"
    and "k \<in> set keys"
    and "\<not> (k = ''availability-zone'' \<and> v1 = [])"
  shows "(\<exists>e. ParseHardware L args = (zero_hc, Some e))
     \<and> (\<forall>h. setRaws L zero_hc (pre @ (k @ CHR ''='' # v1) # mid) = Inr h \<longrightarrow>
           setRaw L h (k @ CHR ''='' # v2) = Inl (Bad k AlreadySet)
           \<and> ParseHardware L args = (zero_hc, Some (Bad k AlreadySet)))"
proof -
  let ?front = "pre @ (k @ CHR ''='' # v1) # mid"
  let ?t2 = "k @ CHR ''='' # v2"
  have split: "raws_of args = ?front @ ?t2 # post" using assms(1) by simp
  have ne: "?t2 \<noteq> []" by simp
  have second: "setRaw L h ?t2 = Inl (Bad k AlreadySet)
      \<and> ParseHardware L args = (zero_hc, Some (Bad k AlreadySet))"
    if h: "setRaws L zero_hc ?front = Inr h" for h
  proof -
    from dup_key_assigned [OF assms(2,3) h] have "assigned k h" .
    then have "setRaw L h ?t2 = Inl (Bad k AlreadySet)" by (rule setRaw_assigned [OF assms(2)])
    with parse_stops [OF split h ne] show ?thesis by simp
  qed
  have "\<exists>e. ParseHardware L args = (zero_hc, Some e)"
  proof (cases "setRaws L zero_hc ?front")
    case (Inl e)
    then have "setRaws L zero_hc (raws_of args) = Inl e"
      unfolding split by (rule setRaws_prefix_fails)
    then show ?thesis by (simp add: ParseHardware_raws)
  next
    case (Inr h)
    with second show ?thesis by blast
  qed
  with second show ?thesis by blast
qed


theorem second_assignment_rejected_witness:
  "ParseHardware sample_extern [''mem=1G cores=1'', ''mem=2G''] = (zero_hc, Some (Bad ''mem'' AlreadySet))"
proof -
  have r: "raws_of [''mem=1G cores=1'', ''mem=2G'']
      = [] @ (''mem'' @ CHR ''='' # ''1G'') # [''cores=1''] @ (''mem'' @ CHR ''='' # ''2G'') # []"
    by (simp add: raws_of_Cons raws_of_Nil trim_eval)
  have k: "''mem'' \<in> set keys" by (simp add: keys_def)
  have n: "\<not> (''mem'' = ''availability-zone'' \<and> ''1G'' = [])" by simp
  have pf: "ParseFloat sample_extern ''1'' = Some (Fin64 1)" by (simp add: sample_extern_def)
  have m: "setRaw sample_extern zero_hc ''mem=1G'' = Inr (zero_hc\<lparr>Mem := Some 1024\<rparr>)"
    using mem1G [OF pf, of zero_hc] by (simp add: zero_hc_def)
  have c: "setRaw sample_extern (zero_hc\<lparr>Mem := Some 1024\<rparr>) ''cores=1''
      = Inr (zero_hc\<lparr>Mem := Some 1024, CpuCores := Some 1\<rparr>)"
    using setRaw_cores [of sample_extern "zero_hc\<lparr>Mem := Some 1024\<rparr>" "''1''"]
    by (simp add: bad_def setCpuCores_def parseUint64_def ParseUint_def digit_of_def zero_hc_def)
  have f: "setRaws sample_extern zero_hc ([] @ (''mem'' @ CHR ''='' # ''1G'') # [''cores=1''])
      = Inr (zero_hc\<lparr>Mem := Some 1024, CpuCores := Some 1\<rparr>)"
    using m c by simp
  from second_assignment_rejected [OF r k n, of sample_extern] f show ?thesis by blast
qed

text \<open>
  The claim as stated fails: after \<open>availability-zone=\<close> a second
  \<open>availability-zone\<close> piece is accepted, and a call whose first piece is rejected
  for another reason returns that reason although a name occurs twice later.
\<close>

theorem second_assignment_counterexample:
  "raws_of [''availability-zone= availability-zone=z'']
     = [''availability-zone='', ''availability-zone=z'']
   \<and> ParseHardware sample_extern [''availability-zone= availability-zone=z'']
     = (zero_hc\<lparr>AvailabilityZone := Some ''z''\<rparr>, None)
   \<and> raws_of [''bogus=1 mem=1G mem=2G''] = [''bogus=1'', ''mem=1G'', ''mem=2G'']
   \<and> ParseHardware sample_extern [''bogus=1 mem=1G mem=2G''] = (zero_hc, Some (Unknown ''bogus''))"
proof -
  have r: "raws_of [''availability-zone= availability-zone=z'']
      = [''availability-zone='', ''availability-zone=z'']"
    by (simp add: raws_of_Cons raws_of_Nil trim_eval)
  have a: "setRaw sample_extern zero_hc ''availability-zone='' = Inr zero_hc"
    using setRaw_zone [of sample_extern zero_hc "[]"]
    by (simp add: bad_def setAvailabilityZone_def zero_hc_def)
  have b: "setRaw sample_extern zero_hc ''availability-zone=z''
      = Inr (zero_hc\<lparr>AvailabilityZone := Some ''z''\<rparr>)"
    using setRaw_zone [of sample_extern zero_hc "''z''"]
    by (simp add: bad_def setAvailabilityZone_def zero_hc_def)
  have 1: "ParseHardware sample_extern [''availability-zone= availability-zone=z'']
     = (zero_hc\<lparr>AvailabilityZone := Some ''z''\<rparr>, None)"
    unfolding ParseHardware_raws r using a b by simp
  have r2: "raws_of [''bogus=1 mem=1G mem=2G''] = [''bogus=1'', ''mem=1G'', ''mem=2G'']"
    by (simp add: raws_of_Cons raws_of_Nil trim_eval)
  have u: "setRaw sample_extern zero_hc ''bogus=1'' = Inl (Unknown ''bogus'')"
    using setRaw_unknown [of "''bogus''" sample_extern zero_hc "''1''"] by (simp add: keys_def)
  have 2: "ParseHardware sample_extern [''bogus=1 mem=1G mem=2G''] = (zero_hc, Some (Unknown ''bogus''))"
    unfolding ParseHardware_raws r2 using u by simp
  from r 1 r2 2 show ?thesis by blast
qed



text \<open>
  C5. \<open>String\<close> is total and returns the pieces of \<open>rendered\<close> joined by single
  spaces: one piece per field that is set, in the order arch, cores, cpu-power, mem,
  root-disk, tags, availability-zone, with tags and availability-zone left out when
  empty; there are as many pieces as such fields. The numbers are written by
  \<open>decimal\<close>, in decimal digits that read back as the number, with \<open>M\<close> appended for
  mem and root-disk.
\<close>

theorem String_tokens_in_order:
  "HardwareCharacteristics_String hc = Join (rendered hc) '' ''
   \<and> length (rendered hc) =
       of_bool (Arch hc \<noteq> None) + of_bool (CpuCores hc \<noteq> None) + of_bool (CpuPower hc \<noteq> None)
       + of_bool (Mem hc \<noteq> None) + of_bool (RootDisk hc \<noteq> None)
       + of_bool (Tags hc \<noteq> None \<and> Tags hc \<noteq> Some [])
       + of_bool (AvailabilityZone hc \<noteq> None \<and> AvailabilityZone hc \<noteq> Some [])
   \<and> digits (decimal n) \<and> dec_value (decimal n) = n"
  using String_rendered length_rendered decimal_digits decimal_value by blast

theorem String_tokens_in_order_witness:
  "HardwareCharacteristics_String
      \<lparr>Arch = Some ''amd64'', Mem = Some 2048, RootDisk = None, CpuCores = Some 4,
       CpuPower = None, Tags = Some [''foo'', ''bar''], AvailabilityZone = Some ''az1''\<rparr>
     = ''arch=amd64 cores=4 mem=2048M tags=foo,bar availability-zone=az1''
   \<and> HardwareCharacteristics_String
      \<lparr>Arch = Some [], Mem = None, RootDisk = Some 0, CpuCores = None,
       CpuPower = Some 250, Tags = Some [], AvailabilityZone = Some []\<rparr>
     = ''arch= cpu-power=250 root-disk=0M''
   \<and> HardwareCharacteristics_String zero_hc = []
   \<and> digits (decimal 2048) \<and> dec_value (decimal 2048) = 2048"
proof -
  have d: "decimal 4 = ''4''" "decimal 2048 = ''2048''" "decimal 250 = ''250''" "decimal 0 = ''0''"
    by (simp_all add: decimal.simps digit_char_def char_of_eq_iff)
  let ?a = "\<lparr>Arch = Some ''amd64'', Mem = Some 2048, RootDisk = None, CpuCores = Some 4,
       CpuPower = None, Tags = Some [''foo'', ''bar''], AvailabilityZone = Some ''az1''\<rparr>"
  let ?b = "\<lparr>Arch = Some [], Mem = None, RootDisk = Some 0, CpuCores = None,
       CpuPower = Some 250, Tags = Some [], AvailabilityZone = Some []\<rparr>"
  have 1: "HardwareCharacteristics_String ?a
      = ''arch=amd64 cores=4 mem=2048M tags=foo,bar availability-zone=az1''"
    using String_tokens_in_order [of ?a] by (simp add: rendered_def d)
  have 2: "HardwareCharacteristics_String ?b = ''arch= cpu-power=250 root-disk=0M''"
    using String_tokens_in_order [of ?b] by (simp add: rendered_def d)
  have 3: "HardwareCharacteristics_String zero_hc = []"
    using String_tokens_in_order [of zero_hc] by (simp add: rendered_def zero_hc_def)
  from 1 2 3 String_tokens_in_order [of zero_hc 2048] show ?thesis by blast
qed

text \<open>
  C6, as amended. A \<open>cores\<close> or \<open>cpu-power\<close> value is accepted exactly when it is
  empty, which gives \<open>0\<close>, or a non-empty string of decimal digits whose value is below
  \<open>2 ^ 64\<close>, which gives that value; anything else, a sign, a suffix or a larger
  number, is "must be a non-negative integer".
\<close>

theorem plain_integer_values:
  "parseUint64 v =
     (if v = [] then Inr 0
      else if digits v \<and> dec_value v < 2 ^ 64 then Inr (word_of_nat (dec_value v))
      else Inl NotUint)
   \<and> (dec_value v < 2 ^ 64 \<longrightarrow> unat (word_of_nat (dec_value v) :: 64 word) = dec_value v)
   \<and> (CpuCores hc = None \<longrightarrow>
        setRaw L hc (''cores='' @ v) =
          (case parseUint64 v of Inl e \<Rightarrow> Inl (Bad ''cores'' e)
           | Inr n \<Rightarrow> Inr (hc\<lparr>CpuCores := Some n\<rparr>)))
   \<and> (CpuPower hc = None \<longrightarrow>
        setRaw L hc (''cpu-power='' @ v) =
          (case parseUint64 v of Inl e \<Rightarrow> Inl (Bad ''cpu-power'' e)
           | Inr n \<Rightarrow> Inr (hc\<lparr>CpuPower := Some n\<rparr>)))"
proof (intro conjI impI)
  show "parseUint64 v =
     (if v = [] then Inr 0
      else if digits v \<and> dec_value v < 2 ^ 64 then Inr (word_of_nat (dec_value v))
      else Inl NotUint)" by (rule parseUint64_eq)
next
  assume "dec_value v < 2 ^ 64"
  then show "unat (word_of_nat (dec_value v) :: 64 word) = dec_value v" by (rule unat_of_nat64)
next
  assume "CpuCores hc = None"
  then show "setRaw L hc (''cores='' @ v) =
          (case parseUint64 v of Inl e \<Rightarrow> Inl (Bad ''cores'' e)
           | Inr n \<Rightarrow> Inr (hc\<lparr>CpuCores := Some n\<rparr>))"
    unfolding setRaw_cores by (simp add: bad_def setCpuCores_def split: sum.splits)
next
  assume "CpuPower hc = None"
  then show "setRaw L hc (''cpu-power='' @ v) =
          (case parseUint64 v of Inl e \<Rightarrow> Inl (Bad ''cpu-power'' e)
           | Inr n \<Rightarrow> Inr (hc\<lparr>CpuPower := Some n\<rparr>))"
    unfolding setRaw_cpu_power by (simp add: bad_def setCpuPower_def split: sum.splits)
qed

theorem plain_integer_values_witness:
  "setRaw sample_extern zero_hc ''cores=42'' = Inr (zero_hc\<lparr>CpuCores := Some 42\<rparr>)
   \<and> setRaw sample_extern zero_hc ''cpu-power='' = Inr (zero_hc\<lparr>CpuPower := Some 0\<rparr>)
   \<and> setRaw sample_extern zero_hc ''cores=4x'' = Inl (Bad ''cores'' NotUint)
   \<and> setRaw sample_extern zero_hc ''cpu-power=-1'' = Inl (Bad ''cpu-power'' NotUint)"
proof -
  have n: "CpuCores zero_hc = None" "CpuPower zero_hc = None" by (simp_all add: zero_hc_def)
  have 1: "setRaw sample_extern zero_hc ''cores=42'' = Inr (zero_hc\<lparr>CpuCores := Some 42\<rparr>)"
    using plain_integer_values [of "''42''" zero_hc sample_extern] n
    by (simp add: digits_def dec_value_def)
  have 2: "setRaw sample_extern zero_hc ''cpu-power='' = Inr (zero_hc\<lparr>CpuPower := Some 0\<rparr>)"
    using plain_integer_values [of "[]" zero_hc sample_extern] n by simp
  have 3: "setRaw sample_extern zero_hc ''cores=4x'' = Inl (Bad ''cores'' NotUint)"
    using plain_integer_values [of "''4x''" zero_hc sample_extern] n
    by (simp add: digits_def dec_value_def)
  have 4: "setRaw sample_extern zero_hc ''cpu-power=-1'' = Inl (Bad ''cpu-power'' NotUint)"
    using plain_integer_values [of "''-1''" zero_hc sample_extern] n
    by (simp add: digits_def dec_value_def)
  from 1 2 3 4 show ?thesis by blast
qed

text \<open>
  The claim as stated fails on a decimal integer that \<open>uint64\<close> cannot hold: the digits
  of \<open>2 ^ 64\<close> are rejected.
\<close>

theorem plain_integer_counterexample:
  "digits ''18446744073709551616''
   \<and> dec_value ''18446744073709551616'' = 18446744073709551616
   \<and> parseUint64 ''18446744073709551616'' = Inl NotUint
   \<and> ParseHardware sample_extern [''cores=18446744073709551616'']
       = (zero_hc, Some (Bad ''cores'' NotUint))"
proof -
  have d: "digits ''18446744073709551616''" by (simp add: digits_def)
  have v: "dec_value ''18446744073709551616'' = 18446744073709551616"
    by (simp add: dec_value_def)
  have p: "parseUint64 ''18446744073709551616'' = Inl NotUint"
    unfolding parseUint64_eq v by simp
  have r: "raws_of [''cores=18446744073709551616''] = [''cores=18446744073709551616'']"
    by (simp add: raws_of_Cons raws_of_Nil trim_eval)
  have "setRaw sample_extern zero_hc (''cores='' @ ''18446744073709551616'')
      = Inl (Bad ''cores'' NotUint)"
    unfolding setRaw_cores by (simp add: bad_def setCpuCores_def p zero_hc_def)
  then have "ParseHardware sample_extern [''cores=18446744073709551616'']
       = (zero_hc, Some (Bad ''cores'' NotUint))"
    unfolding ParseHardware_raws r by simp
  with d v p show ?thesis by blast
qed

text \<open>
  C7. \<open>setRaw\<close> cuts a piece at its first \<open>=\<close>: the name is what precedes it and
  the value all that follows, further \<open>=\<close> included. A piece without \<open>=\<close>, or that
  starts with \<open>=\<close>, is "malformed"; a name outside the seven recognized ones is
  "unknown"; a recognized name goes to its setter. \<open>ParseHardware\<close> fails with that
  error when the pieces before were accepted.
\<close>

theorem token_split_and_dispatch:
  "(CHR ''='' \<notin> set raw \<longrightarrow> setRaw L hc raw = Inl (Malformed raw))
   \<and> setRaw L hc (CHR ''='' # str) = Inl (Malformed (CHR ''='' # str))
   \<and> (name \<noteq> [] \<and> CHR ''='' \<notin> set name \<and> name \<notin> set keys \<longrightarrow>
        setRaw L hc (name @ CHR ''='' # str) = Inl (Unknown name))
   \<and> (name \<in> set keys \<longrightarrow>
        setRaw L hc (name @ CHR ''='' # str) =
          (if name = ''arch'' then bad name (setArch L hc str)
           else if name = ''cores'' then bad name (setCpuCores hc str)
           else if name = ''cpu-power'' then bad name (setCpuPower hc str)
           else if name = ''mem'' then bad name (setMem L hc str)
           else if name = ''root-disk'' then bad name (setRootDisk L hc str)
           else if name = ''tags'' then bad name (setTags hc str)
           else bad name (setAvailabilityZone hc str)))
   \<and> (raws_of args = pre @ raw # post \<and> setRaws L zero_hc pre = Inr hc \<and> raw \<noteq> []
        \<and> (CHR ''='' \<notin> set raw \<or> hd raw = CHR ''='') \<longrightarrow>
        ParseHardware L args = (zero_hc, Some (Malformed raw)))
   \<and> (raws_of args = pre @ (name @ CHR ''='' # str) # post \<and> setRaws L zero_hc pre = Inr hc
        \<and> name \<noteq> [] \<and> CHR ''='' \<notin> set name \<and> name \<notin> set keys \<longrightarrow>
        ParseHardware L args = (zero_hc, Some (Unknown name)))"
proof (intro conjI impI)
  assume "CHR ''='' \<notin> set raw"
  then show "setRaw L hc raw = Inl (Malformed raw)" by (rule setRaw_no_eq)
next
  show "setRaw L hc (CHR ''='' # str) = Inl (Malformed (CHR ''='' # str))" by (rule setRaw_eq_first)
next
  assume "name \<noteq> [] \<and> CHR ''='' \<notin> set name \<and> name \<notin> set keys"
  then show "setRaw L hc (name @ CHR ''='' # str) = Inl (Unknown name)"
    using setRaw_unknown by blast
next
  assume "name \<in> set keys"
  then show "setRaw L hc (name @ CHR ''='' # str) =
          (if name = ''arch'' then bad name (setArch L hc str)
           else if name = ''cores'' then bad name (setCpuCores hc str)
           else if name = ''cpu-power'' then bad name (setCpuPower hc str)
           else if name = ''mem'' then bad name (setMem L hc str)
           else if name = ''root-disk'' then bad name (setRootDisk L hc str)
           else if name = ''tags'' then bad name (setTags hc str)
           else bad name (setAvailabilityZone hc str))" by (rule setRaw_key)
next
  assume a: "raws_of args = pre @ raw # post \<and> setRaws L zero_hc pre = Inr hc \<and> raw \<noteq> []
        \<and> (CHR ''='' \<notin> set raw \<or> hd raw = CHR ''='')"
  then have "setRaw L hc raw = Inl (Malformed raw)"
  proof (cases "CHR ''='' \<notin> set raw")
    case True then show ?thesis by (rule setRaw_no_eq)
  next
    case False
    with a obtain r where "raw = CHR ''='' # r" by (cases raw) auto
    then show ?thesis by (simp add: setRaw_eq_first)
  qed
  with a show "ParseHardware L args = (zero_hc, Some (Malformed raw))" using parse_stops by blast
next
  assume a: "raws_of args = pre @ (name @ CHR ''='' # str) # post \<and> setRaws L zero_hc pre = Inr hc
        \<and> name \<noteq> [] \<and> CHR ''='' \<notin> set name \<and> name \<notin> set keys"
  then have "setRaw L hc (name @ CHR ''='' # str) = Inl (Unknown name)"
    using setRaw_unknown by blast
  moreover have "name @ CHR ''='' # str \<noteq> []" by simp
  ultimately show "ParseHardware L args = (zero_hc, Some (Unknown name))"
    using a parse_stops by blast
qed

theorem token_split_and_dispatch_witness:
  "ParseHardware sample_extern [''cores=1 mem''] = (zero_hc, Some (Malformed ''mem''))
   \<and> ParseHardware sample_extern [''cores=1'', ''=1G''] = (zero_hc, Some (Malformed ''=1G''))
   \<and> ParseHardware sample_extern [''cores=1 bogus=1''] = (zero_hc, Some (Unknown ''bogus''))
   \<and> setRaw sample_extern zero_hc ''tags=a=b,c'' = Inr (zero_hc\<lparr>Tags := Some [''a=b'', ''c'']\<rparr>)"
proof -
  let ?h = "zero_hc\<lparr>CpuCores := Some 1\<rparr>"
  have c: "setRaws sample_extern zero_hc [''cores=1''] = Inr ?h" by (simp add: cores1)
  have r1: "raws_of [''cores=1 mem''] = [''cores=1''] @ ''mem'' # []"
    by (simp add: raws_of_Cons raws_of_Nil trim_eval)
  have 1: "ParseHardware sample_extern [''cores=1 mem''] = (zero_hc, Some (Malformed ''mem''))"
    using token_split_and_dispatch [of "''mem''" sample_extern ?h _ _ "[''cores=1 mem'']"
        "[''cores=1'']" "[]"] r1 c by simp
  have r2: "raws_of [''cores=1'', ''=1G''] = [''cores=1''] @ ''=1G'' # []"
    by (simp add: raws_of_Cons raws_of_Nil trim_eval)
  have 2: "ParseHardware sample_extern [''cores=1'', ''=1G''] = (zero_hc, Some (Malformed ''=1G''))"
    using token_split_and_dispatch [of "''=1G''" sample_extern ?h _ _ "[''cores=1'', ''=1G'']"
        "[''cores=1'']" "[]"] r2 c by simp
  have r3: "raws_of [''cores=1 bogus=1''] = [''cores=1''] @ (''bogus'' @ CHR ''='' # ''1'') # []"
    by (simp add: raws_of_Cons raws_of_Nil trim_eval)
  have 3: "ParseHardware sample_extern [''cores=1 bogus=1''] = (zero_hc, Some (Unknown ''bogus''))"
    using token_split_and_dispatch [of _ sample_extern ?h "''1''" "''bogus''" "[''cores=1 bogus=1'']"
        "[''cores=1'']" "[]"] r3 c by (simp add: keys_def)
  have 4: "setRaw sample_extern zero_hc ''tags=a=b,c'' = Inr (zero_hc\<lparr>Tags := Some [''a=b'', ''c'']\<rparr>)"
    using token_split_and_dispatch [of _ sample_extern zero_hc "''a=b,c''" "''tags''"]
    by (simp add: keys_def bad_def setTags_def parseTags_def zero_hc_def)
  from 1 2 3 4 show ?thesis by blast
qed

text \<open>
  C8. When \<open>setRaw\<close> rejects a piece, in the state the pieces before it have built,
  \<open>ParseHardware\<close> returns that error, whatever follows the piece, and the record it returns
  is \<open>HardwareCharacteristics{}\<close>: no field that an earlier piece assigned is left in it.
  An error that \<open>ParseHardware\<close> returns is always such a first rejection.
\<close>

theorem first_failure_no_partial_record:
  "(\<forall>pre raw post h e.
       raws_of args = pre @ raw # post \<and> setRaws L zero_hc pre = Inr h \<and> raw \<noteq> []
         \<and> setRaw L h raw = Inl e
       \<longrightarrow> ParseHardware L args = (zero_hc, Some e))
   \<and> (\<forall>hc e. ParseHardware L args = (hc, Some e) \<longrightarrow>
         hc = zero_hc \<and>
         (\<exists>pre raw post h. raws_of args = pre @ raw # post \<and> setRaws L zero_hc pre = Inr h
             \<and> raw \<noteq> [] \<and> setRaw L h raw = Inl e))"
proof (intro conjI allI impI)
  fix pre raw post h e
  assume "raws_of args = pre @ raw # post \<and> setRaws L zero_hc pre = Inr h \<and> raw \<noteq> []
         \<and> setRaw L h raw = Inl e"
  then show "ParseHardware L args = (zero_hc, Some e)" using parse_stops by blast
next
  fix hc e assume a: "ParseHardware L args = (hc, Some e)"
  then show "hc = zero_hc" by (auto simp: ParseHardware_raws split: sum.splits)
  from a have "setRaws L zero_hc (raws_of args) = Inl e"
    by (auto simp: ParseHardware_raws split: sum.splits)
  then show "\<exists>pre raw post h. raws_of args = pre @ raw # post \<and> setRaws L zero_hc pre = Inr h
             \<and> raw \<noteq> [] \<and> setRaw L h raw = Inl e" by (rule setRaws_Inl_decomp)
qed


theorem first_failure_no_partial_record_witness:
  "ParseHardware sample_extern [''cores=1 bogus=2'', ''mem=1G''] = (zero_hc, Some (Unknown ''bogus''))
   \<and> (\<exists>pre raw post h. raws_of [''cores=1 bogus=2'', ''mem=1G''] = pre @ raw # post
         \<and> setRaws sample_extern zero_hc pre = Inr h \<and> raw \<noteq> []
         \<and> setRaw sample_extern h raw = Inl (Unknown ''bogus''))"
proof -
  have r: "raws_of [''cores=1 bogus=2'', ''mem=1G''] = [''cores=1''] @ ''bogus=2'' # [''mem=1G'']"
    by (simp add: raws_of_Cons raws_of_Nil trim_eval)
  have p: "setRaws sample_extern zero_hc [''cores=1''] = Inr (zero_hc\<lparr>CpuCores := Some 1\<rparr>)"
    by (simp add: cores1)
  have u: "setRaw sample_extern (zero_hc\<lparr>CpuCores := Some 1\<rparr>) ''bogus=2'' = Inl (Unknown ''bogus'')"
    using setRaw_unknown [of "''bogus''" sample_extern _ "''2''"] by (simp add: keys_def)
  have 1: "ParseHardware sample_extern [''cores=1 bogus=2'', ''mem=1G'']
      = (zero_hc, Some (Unknown ''bogus''))"
    using first_failure_no_partial_record [of "[''cores=1 bogus=2'', ''mem=1G'']" sample_extern] r p u
    by blast
  with first_failure_no_partial_record [of "[''cores=1 bogus=2'', ''mem=1G'']" sample_extern]
  show ?thesis by blast
qed

text \<open>
  C9. A \<open>mem\<close> or \<open>root-disk\<close> token with an empty value is accepted: \<open>parseSize\<close>
  skips the number parser on the empty string, and the field becomes set, to \<open>0\<close>.
\<close>

theorem empty_size_is_zero:
  "parseSize L [] = Inr 0
   \<and> ParseHardware L [''mem=''] = (zero_hc\<lparr>Mem := Some 0\<rparr>, None)
   \<and> ParseHardware L [''root-disk=''] = (zero_hc\<lparr>RootDisk := Some 0\<rparr>, None)"
proof -
  have m: "raws_of [''mem=''] = [''mem='']" and r: "raws_of [''root-disk=''] = [''root-disk='']"
    by (simp_all add: raws_of_Cons raws_of_Nil trim_eval)
  have "setRaw L zero_hc (''mem='' @ []) = Inr (zero_hc\<lparr>Mem := Some 0\<rparr>)"
    unfolding setRaw_mem by (simp add: bad_def setMem_def parseSize_empty zero_hc_def)
  then have 1: "ParseHardware L [''mem=''] = (zero_hc\<lparr>Mem := Some 0\<rparr>, None)"
    unfolding ParseHardware_raws m by simp
  have "setRaw L zero_hc (''root-disk='' @ []) = Inr (zero_hc\<lparr>RootDisk := Some 0\<rparr>)"
    unfolding setRaw_root_disk by (simp add: bad_def setRootDisk_def parseSize_empty zero_hc_def)
  then have 2: "ParseHardware L [''root-disk=''] = (zero_hc\<lparr>RootDisk := Some 0\<rparr>, None)"
    unfolding ParseHardware_raws r by simp
  from parseSize_empty 1 2 show ?thesis by blast
qed

text \<open>
  C10. An \<open>availability-zone\<close> piece with an empty value leaves the record as it is,
  so a later \<open>availability-zone\<close> piece with a value is accepted and sets the zone;
  once the zone is set, by a piece with a non-empty value, any further
  \<open>availability-zone\<close> piece is rejected with "already set".
\<close>

theorem empty_zone_not_assigned:
  "(AvailabilityZone hc = None \<longrightarrow> setRaw L hc ''availability-zone='' = Inr hc)
   \<and> (AvailabilityZone hc = None \<and> z \<noteq> [] \<longrightarrow>
        setRaw L hc (''availability-zone='' @ z) = Inr (hc\<lparr>AvailabilityZone := Some z\<rparr>))
   \<and> (AvailabilityZone hc \<noteq> None \<longrightarrow>
        setRaw L hc (''availability-zone='' @ z') = Inl (Bad ''availability-zone'' AlreadySet))
   \<and> (raws_of args = pre @ ''availability-zone='' # mid @ (''availability-zone='' @ z) # post
        \<and> z \<noteq> [] \<and> setRaws L zero_hc (pre @ mid) = Inr hc \<and> AvailabilityZone hc = None \<longrightarrow>
        setRaws L zero_hc (pre @ ''availability-zone='' # mid @ [''availability-zone='' @ z])
          = Inr (hc\<lparr>AvailabilityZone := Some z\<rparr>)
        \<and> ParseHardware L args =
            (case setRaws L (hc\<lparr>AvailabilityZone := Some z\<rparr>) post of
               Inl e \<Rightarrow> (zero_hc, Some e) | Inr hc' \<Rightarrow> (hc', None)))
   \<and> (raws_of args = pre @ (''availability-zone='' @ z) # mid @ (''availability-zone='' @ z') # post
        \<and> z \<noteq> [] \<and> setRaws L zero_hc (pre @ (''availability-zone='' @ z) # mid) = Inr hc \<longrightarrow>
        ParseHardware L args = (zero_hc, Some (Bad ''availability-zone'' AlreadySet)))"
proof (intro conjI impI)
  assume "AvailabilityZone hc = None"
  then show "setRaw L hc ''availability-zone='' = Inr hc"
    using setRaw_zone [of L hc "[]"] by (simp add: bad_def setAvailabilityZone_def)
next
  assume "AvailabilityZone hc = None \<and> z \<noteq> []"
  then show "setRaw L hc (''availability-zone='' @ z) = Inr (hc\<lparr>AvailabilityZone := Some z\<rparr>)"
    unfolding setRaw_zone by (simp add: bad_def setAvailabilityZone_def)
next
  assume "AvailabilityZone hc \<noteq> None"
  then show "setRaw L hc (''availability-zone='' @ z') = Inl (Bad ''availability-zone'' AlreadySet)"
    unfolding setRaw_zone by (simp add: bad_def setAvailabilityZone_def)
next
  assume a: "raws_of args = pre @ ''availability-zone='' # mid @ (''availability-zone='' @ z) # post
        \<and> z \<noteq> [] \<and> setRaws L zero_hc (pre @ mid) = Inr hc \<and> AvailabilityZone hc = None"
  then obtain h1 where h1: "setRaws L zero_hc pre = Inr h1" and m: "setRaws L h1 mid = Inr hc"
    by (auto simp: setRaws_append split: sum.splits)
  have z1: "AvailabilityZone h1 = None"
  proof (rule ccontr)
    assume "AvailabilityZone h1 \<noteq> None"
    then have "assigned ''availability-zone'' h1" by (simp add: assigned_def)
    from setRaws_keeps_assigned [OF m this] a show False by (simp add: assigned_def)
  qed
  then have e: "setRaw L h1 ''availability-zone='' = Inr h1"
    using setRaw_zone [of L h1 "[]"] by (simp add: bad_def setAvailabilityZone_def)
  from a have s: "setRaw L hc (''availability-zone='' @ z) = Inr (hc\<lparr>AvailabilityZone := Some z\<rparr>)"
    unfolding setRaw_zone by (simp add: bad_def setAvailabilityZone_def)
  from h1 e m s
  show f: "setRaws L zero_hc (pre @ ''availability-zone='' # mid @ [''availability-zone='' @ z])
          = Inr (hc\<lparr>AvailabilityZone := Some z\<rparr>)"
    by (simp add: setRaws_append)
  from a have "raws_of args
      = (pre @ ''availability-zone='' # mid @ [''availability-zone='' @ z]) @ post" by simp
  then show "ParseHardware L args =
            (case setRaws L (hc\<lparr>AvailabilityZone := Some z\<rparr>) post of
               Inl e \<Rightarrow> (zero_hc, Some e) | Inr hc' \<Rightarrow> (hc', None))"
    unfolding ParseHardware_raws using f by (simp only: setRaws_append sum.case)
next
  assume a: "raws_of args = pre @ (''availability-zone='' @ z) # mid @ (''availability-zone='' @ z') # post
        \<and> z \<noteq> [] \<and> setRaws L zero_hc (pre @ (''availability-zone='' @ z) # mid) = Inr hc"
  have k: "''availability-zone'' \<in> set keys" by (simp add: keys_def)
  from a have n: "\<not> (''availability-zone'' = ''availability-zone'' \<and> z = [])" by simp
  from a have h: "setRaws L zero_hc (pre @ (''availability-zone'' @ CHR ''='' # z) # mid) = Inr hc"
    by simp
  from dup_key_assigned [OF k n h] have "assigned ''availability-zone'' hc" .
  then have "setRaw L hc (''availability-zone'' @ CHR ''='' # z') = Inl (Bad ''availability-zone'' AlreadySet)"
    by (rule setRaw_assigned [OF k])
  moreover from a have "raws_of args
     = (pre @ (''availability-zone='' @ z) # mid) @ (''availability-zone'' @ CHR ''='' # z') # post"
    by simp
  ultimately show "ParseHardware L args = (zero_hc, Some (Bad ''availability-zone'' AlreadySet))"
    using a parse_stops by blast
qed

theorem empty_zone_not_assigned_witness:
  "ParseHardware sample_extern [''availability-zone= cores=1'', ''availability-zone=z'']
     = (zero_hc\<lparr>CpuCores := Some 1, AvailabilityZone := Some ''z''\<rparr>, None)
   \<and> ParseHardware sample_extern [''availability-zone=a'', ''availability-zone=''] 
     = (zero_hc, Some (Bad ''availability-zone'' AlreadySet))"
proof -
  let ?h = "zero_hc\<lparr>CpuCores := Some 1\<rparr>"
  have r: "raws_of [''availability-zone= cores=1'', ''availability-zone=z'']
      = [] @ ''availability-zone='' # [''cores=1''] @ (''availability-zone='' @ ''z'') # []"
    by (simp add: raws_of_Cons raws_of_Nil trim_eval)
  have c: "setRaws sample_extern zero_hc ([] @ [''cores=1'']) = Inr ?h"
    by (simp add: cores1)
  have n: "AvailabilityZone ?h = None" by (simp add: zero_hc_def)
  have 1: "ParseHardware sample_extern [''availability-zone= cores=1'', ''availability-zone=z'']
     = (zero_hc\<lparr>CpuCores := Some 1, AvailabilityZone := Some ''z''\<rparr>, None)"
    using empty_zone_not_assigned [of ?h sample_extern "''z''" _
        "[''availability-zone= cores=1'', ''availability-zone=z'']" "[]" "[''cores=1'']" "[]"]
      r c n by simp
  let ?a = "zero_hc\<lparr>AvailabilityZone := Some ''a''\<rparr>"
  have r2: "raws_of [''availability-zone=a'', ''availability-zone='']
      = [] @ (''availability-zone='' @ ''a'') # [] @ (''availability-zone='' @ []) # []"
    by (simp add: raws_of_Cons raws_of_Nil trim_eval)
  have a: "setRaw sample_extern zero_hc ''availability-zone=a'' = Inr ?a"
    using setRaw_zone [of sample_extern zero_hc "''a''"]
    by (simp add: bad_def setAvailabilityZone_def zero_hc_def)
  then have s: "setRaws sample_extern zero_hc ([] @ (''availability-zone='' @ ''a'') # []) = Inr ?a"
    by simp
  have 2: "ParseHardware sample_extern [''availability-zone=a'', ''availability-zone='']
     = (zero_hc, Some (Bad ''availability-zone'' AlreadySet))"
    using empty_zone_not_assigned [of ?a sample_extern "''a''" "[]"
        "[''availability-zone=a'', ''availability-zone='']" "[]" "[]" "[]"]
      r2 s by simp
  from 1 2 show ?thesis ..
qed

end
